theory Spec2Isabelle
  imports Complex_Main "HOL-Library.AList"
begin

section \<open>The order processing client (static/js/app\_fresh.js)\<close>

text \<open>
  A shallow embedding of the class \<open>OrderProcessingApp\<close>. Every method that mutates
  \<open>this\<close> becomes a function from the application state to the new state. Writes to the
  document (table rows, button labels) are not state of the application and are left out;
  what the application sends on the socket, what it reports through \<open>showStatus\<close>, the
  confirmation dialog it opens and the timers it requests are recorded in the state.
\<close>

subsection \<open>Orders and protocol messages\<close>

text \<open>
  An order as it arrives in a frame. \<open>timestamp\<close> is the value of
  \<open>new Date(order.timestamp)\<close> in milliseconds, which is what the sort comparator
  subtracts; frames whose timestamp does not parse are outside the model.
\<close>

record order_rec =
  order_id :: string
  customer_name :: string
  status :: string
  priority :: string
  details :: string
  timestamp :: int
  processed_at :: "int option"

datatype message =
    OrderItem order_rec
  | StatusMsg string
  | ErrorMsg string
  | OrderUpdated order_rec
  | UnknownMsg string

datatype command =
    ProcessOrderCmd string
  | CloseOrderCmd string

text \<open>
  The texts handed to \<open>showStatus\<close>, one constructor per literal of the source, with
  the interpolated values as arguments, and the three kinds it is called with.
\<close>

datatype notice =
    NotConnected
  | OrderNotFound
  | OnlyProcessingCanBeClosed
  | ClosingOrder string
  | NoOrdersSelected
  | ProcessingSelected
  | NoProcessingSelected
  | ClosingProcessing nat int
  | NoneSelected
  | Deselected nat
  | FromServer string

datatype notice_kind = KSuccess | KError | KInfo

text \<open>The callback a confirmation dialog runs when the operator confirms.\<close>

datatype on_confirm =
    PerformCloseOrder string
  | PerformCloseSelectedOrders "string list"

text \<open>The result of \<open>parseInt\<close> on a text field.\<close>

datatype js_number = NaN | Num int

subsection \<open>Containers of the runtime\<close>

text \<open>
  A \<open>Map\<close> iterates in insertion order, and \<open>set\<close> on a key that is present keeps
  the key's position: an association list with \<open>AList.update\<close>. A \<open>Set\<close> is a list
  without repetition in insertion order.
\<close>

definition Map_set :: "string \<Rightarrow> order_rec \<Rightarrow> (string \<times> order_rec) list \<Rightarrow> (string \<times> order_rec) list" where
  "Map_set k v m = AList.update k v m"

definition Map_delete :: "string \<Rightarrow> (string \<times> order_rec) list \<Rightarrow> (string \<times> order_rec) list" where
  "Map_delete k m = AList.delete k m"

definition Map_get :: "(string \<times> order_rec) list \<Rightarrow> string \<Rightarrow> order_rec option" where
  "Map_get m k = map_of m k"

definition Map_values :: "(string \<times> order_rec) list \<Rightarrow> order_rec list" where
  "Map_values m = map snd m"

definition Map_keys :: "(string \<times> order_rec) list \<Rightarrow> string list" where
  "Map_keys m = map fst m"

definition Set_has :: "string list \<Rightarrow> string \<Rightarrow> bool" where
  "Set_has S x = (x \<in> set S)"

definition Set_add :: "string \<Rightarrow> string list \<Rightarrow> string list" where
  "Set_add x S = (if x \<in> set S then S else S @ [x])"

definition Set_delete :: "string \<Rightarrow> string list \<Rightarrow> string list" where
  "Set_delete x S = filter (\<lambda>y. y \<noteq> x) S"

text \<open>
  \<open>Array.prototype.slice\<close> on integer arguments: a negative index counts from the end,
  and both ends are cut to the array.
\<close>

definition slice_index :: "nat \<Rightarrow> int \<Rightarrow> nat" where
  "slice_index n i = (if i < 0 then nat (max (int n + i) 0) else min (nat i) n)"

definition slice :: "'a list \<Rightarrow> int \<Rightarrow> int \<Rightarrow> 'a list" where
  "slice xs start stop =
     (let k = slice_index (length xs) start; e = slice_index (length xs) stop
      in take (e - k) (drop k xs))"

definition slice_from :: "'a list \<Rightarrow> int \<Rightarrow> 'a list" where
  "slice_from xs start = drop (slice_index (length xs) start) xs"

text \<open>
  \<open>Array.from(this.orders.values()).sort((a, b) => new Date(b.timestamp) - new Date(a.timestamp))\<close>:
  the sort is stable, and the comparator puts the larger timestamp first.
\<close>

definition sort_newest_first :: "order_rec list \<Rightarrow> order_rec list" where
  "sort_newest_first vs = sort_key (\<lambda>v. - timestamp v) vs"

subsection \<open>The application state\<close>

record app =
  ws :: "nat option"
  orders :: "(string \<times> order_rec) list"
  ordersArray :: "order_rec list"
  selectedOrders :: "string list"
  isConnected :: bool
  currentPage :: int
  pageSize :: int
  maxOrders :: int
  connectionStatus :: string
  sent :: "command list"
  notices :: "(notice \<times> notice_kind) list"
  modal :: "on_confirm option"
  now :: nat
  timers :: "nat list"

text \<open>
  \<open>ws\<close> numbers the sockets constructed so far (\<open>None\<close> is \<open>null\<close>); \<open>sent\<close> is
  what \<open>this.ws.send\<close> was given, oldest first; \<open>notices\<close> is the log of
  \<open>showStatus\<close> calls; \<open>modal\<close> is the callback of the open confirmation dialog;
  \<open>now\<close> is the clock in milliseconds and \<open>timers\<close> holds the times at which the
  pending reconnection callbacks are due, in the order they were requested.
\<close>

definition showStatus :: "notice \<Rightarrow> notice_kind \<Rightarrow> app \<Rightarrow> app" where
  "showStatus message type s = s\<lparr>notices := notices s @ [(message, type)]\<rparr>"

definition ws_send :: "command \<Rightarrow> app \<Rightarrow> app" where
  "ws_send c s = s\<lparr>sent := sent s @ [c]\<rparr>"

subsection \<open>Capacity enforcement and ingest\<close>

text \<open>The body of the \<open>forEach\<close> in \<open>enforceMaxOrdersLimit\<close>.\<close>

definition remove_order :: "order_rec \<Rightarrow> app \<Rightarrow> app" where
  "remove_order v s =
     s\<lparr>orders := Map_delete (order_id v) (orders s),
       selectedOrders := Set_delete (order_id v) (selectedOrders s)\<rparr>"

definition oldestOrders :: "app \<Rightarrow> order_rec list" where
  "oldestOrders s =
     slice_from (ordersArray s) (- (int (length (ordersArray s)) - maxOrders s))"

definition enforceMaxOrdersLimit :: "app \<Rightarrow> app" where
  "enforceMaxOrdersLimit s =
     (if int (length (ordersArray s)) > maxOrders s then
        let s' = fold remove_order (oldestOrders s) s
        in s'\<lparr>ordersArray := sort_newest_first (Map_values (orders s'))\<rparr>
      else s)"

definition addOrderToTable :: "order_rec \<Rightarrow> app \<Rightarrow> app" where
  "addOrderToTable v s =
     (let s1 = s\<lparr>orders := Map_set (order_id v) v (orders s)\<rparr>;
          s2 = s1\<lparr>ordersArray := sort_newest_first (Map_values (orders s1))\<rparr>
      in enforceMaxOrdersLimit s2)"

definition updateOrderInTable :: "order_rec \<Rightarrow> app \<Rightarrow> app" where
  "updateOrderInTable v s =
     (let s1 = s\<lparr>orders := Map_set (order_id v) v (orders s)\<rparr>;
          s2 = s1\<lparr>ordersArray := sort_newest_first (Map_values (orders s1))\<rparr>
      in enforceMaxOrdersLimit s2)"

definition handleMessage :: "message \<Rightarrow> app \<Rightarrow> app" where
  "handleMessage m s =
     (case m of
        OrderItem v \<Rightarrow> addOrderToTable v s
      | StatusMsg t \<Rightarrow> showStatus (FromServer t) KSuccess s
      | ErrorMsg t \<Rightarrow> showStatus (FromServer t) KError s
      | OrderUpdated v \<Rightarrow> updateOrderInTable v s
      | UnknownMsg t \<Rightarrow> s)"

text \<open>
  \<open>updateMaxOrdersLimit\<close> reads the input element; the argument is \<open>None\<close> when the
  element is missing and otherwise what \<open>parseInt\<close> made of its value.
  \<open>parseInt(v) || 500\<close> replaces the two falsy numbers, \<open>NaN\<close> and \<open>0\<close>.
\<close>

definition or_500 :: "js_number \<Rightarrow> int" where
  "or_500 v = (case v of NaN \<Rightarrow> 500 | Num n \<Rightarrow> if n = 0 then 500 else n)"

definition updateMaxOrdersLimit :: "js_number option \<Rightarrow> app \<Rightarrow> app" where
  "updateMaxOrdersLimit inp s =
     (case inp of
        None \<Rightarrow> s
      | Some v \<Rightarrow> enforceMaxOrdersLimit (s\<lparr>maxOrders := or_500 v\<rparr>))"

subsection \<open>Pagination\<close>

text \<open>
  \<open>Math.ceil(this.ordersArray.length / this.pageSize)\<close>. The page size comes from a
  selection list of positive choices; for a page size of zero the source computes
  \<open>Infinity\<close> or \<open>NaN\<close>, which this definition does not represent.
\<close>

definition getTotalPages :: "app \<Rightarrow> int" where
  "getTotalPages s = \<lceil>real (length (ordersArray s)) / real_of_int (pageSize s)\<rceil>"

definition goToPage :: "int \<Rightarrow> app \<Rightarrow> app" where
  "goToPage page s =
     (if page < 1 \<or> page > getTotalPages s then s else s\<lparr>currentPage := page\<rparr>)"

text \<open>The rows \<open>renderCurrentPage\<close> puts into the table: \<open>ordersToShow\<close>.\<close>

definition renderCurrentPage :: "app \<Rightarrow> order_rec list" where
  "renderCurrentPage s =
     (let start = (currentPage s - 1) * pageSize s; stop = start + pageSize s
      in slice (ordersArray s) start stop)"

text \<open>The listener on the page size selection; its argument is the parsed choice.\<close>

definition pageSizeChange :: "int \<Rightarrow> app \<Rightarrow> app" where
  "pageSizeChange n s = s\<lparr>pageSize := n, currentPage := 1\<rparr>"

definition firstPage :: "app \<Rightarrow> app" where
  "firstPage s = goToPage 1 s"

definition prevPage :: "app \<Rightarrow> app" where
  "prevPage s = goToPage (currentPage s - 1) s"

definition nextPage :: "app \<Rightarrow> app" where
  "nextPage s = goToPage (currentPage s + 1) s"

definition lastPage :: "app \<Rightarrow> app" where
  "lastPage s = goToPage (getTotalPages s) s"

text \<open>The rows of page \<open>p\<close>: what \<open>renderCurrentPage\<close> shows once the page is \<open>p\<close>.\<close>

definition page_items :: "app \<Rightarrow> int \<Rightarrow> order_rec list" where
  "page_items s p = renderCurrentPage (s\<lparr>currentPage := p\<rparr>)"

subsection \<open>Selection\<close>

definition toggleOrderSelection :: "string \<Rightarrow> app \<Rightarrow> app" where
  "toggleOrderSelection orderId s =
     (if Set_has (selectedOrders s) orderId
      then s\<lparr>selectedOrders := Set_delete orderId (selectedOrders s)\<rparr>
      else s\<lparr>selectedOrders := Set_add orderId (selectedOrders s)\<rparr>)"

definition deselectAllOrders :: "app \<Rightarrow> app" where
  "deselectAllOrders s =
     (if length (selectedOrders s) = 0 then showStatus NoneSelected KInfo s
      else showStatus (Deselected (length (selectedOrders s))) KSuccess
             (s\<lparr>selectedOrders := []\<rparr>))"

subsection \<open>Commands and the confirmation dialog\<close>

definition showConfirmationModal :: "on_confirm \<Rightarrow> app \<Rightarrow> app" where
  "showConfirmationModal onConfirm s = s\<lparr>modal := Some onConfirm\<rparr>"

definition hideConfirmationModal :: "app \<Rightarrow> app" where
  "hideConfirmationModal s = s\<lparr>modal := None\<rparr>"

definition processOrder :: "string \<Rightarrow> app \<Rightarrow> app" where
  "processOrder orderId s =
     (if \<not> isConnected s then showStatus NotConnected KError s
      else ws_send (ProcessOrderCmd orderId) s)"

definition closeOrder :: "string \<Rightarrow> app \<Rightarrow> app" where
  "closeOrder orderId s =
     (if \<not> isConnected s then showStatus NotConnected KError s
      else case Map_get (orders s) orderId of
             None \<Rightarrow> showStatus OrderNotFound KError s
           | Some v \<Rightarrow>
               if status v \<noteq> ''Processing''
               then showStatus OnlyProcessingCanBeClosed KError s
               else showConfirmationModal (PerformCloseOrder orderId) s)"

definition performCloseOrder :: "string \<Rightarrow> app \<Rightarrow> app" where
  "performCloseOrder orderId s =
     (if \<not> isConnected s then showStatus NotConnected KError s
      else showStatus (ClosingOrder orderId) KSuccess (ws_send (CloseOrderCmd orderId) s))"

definition processSelectedOrders :: "app \<Rightarrow> app" where
  "processSelectedOrders s =
     (if \<not> isConnected s then showStatus NotConnected KError s
      else if length (selectedOrders s) = 0 then showStatus NoOrdersSelected KError s
      else showStatus ProcessingSelected KSuccess (fold processOrder (selectedOrders s) s))"

text \<open>The filter of \<open>closeSelectedOrders\<close>: \<open>order && order.status === 'Processing'\<close>.\<close>

definition is_processing :: "app \<Rightarrow> string \<Rightarrow> bool" where
  "is_processing s orderId =
     (case Map_get (orders s) orderId of None \<Rightarrow> False | Some v \<Rightarrow> status v = ''Processing'')"

definition closeSelectedOrders :: "app \<Rightarrow> app" where
  "closeSelectedOrders s =
     (if \<not> isConnected s then showStatus NotConnected KError s
      else if length (selectedOrders s) = 0 then showStatus NoOrdersSelected KError s
      else let selectedProcessingOrders = filter (is_processing s) (selectedOrders s)
           in if length selectedProcessingOrders = 0
              then showStatus NoProcessingSelected KError s
              else showConfirmationModal (PerformCloseSelectedOrders selectedProcessingOrders) s)"

definition performCloseSelectedOrders :: "string list \<Rightarrow> app \<Rightarrow> app" where
  "performCloseSelectedOrders selectedProcessingOrders s =
     (let s' = fold performCloseOrder selectedProcessingOrders s;
          skippedCount = int (length (selectedOrders s')) - int (length selectedProcessingOrders)
      in showStatus (ClosingProcessing (length selectedProcessingOrders) skippedCount) KSuccess s')"

text \<open>
  The two buttons of the dialog. The confirm listener hides the dialog and runs the
  callback given to \<open>showConfirmationModal\<close>; a hidden dialog has nothing to click.
\<close>

definition run_on_confirm :: "on_confirm \<Rightarrow> app \<Rightarrow> app" where
  "run_on_confirm cb s =
     (case cb of
        PerformCloseOrder orderId \<Rightarrow> performCloseOrder orderId s
      | PerformCloseSelectedOrders ids \<Rightarrow> performCloseSelectedOrders ids s)"

definition modalConfirm :: "app \<Rightarrow> app" where
  "modalConfirm s =
     (case modal s of None \<Rightarrow> s | Some cb \<Rightarrow> run_on_confirm cb (hideConfirmationModal s))"

definition modalCancel :: "app \<Rightarrow> app" where
  "modalCancel s = hideConfirmationModal s"

subsection \<open>The connection\<close>

text \<open>
  \<open>connectWebSocket\<close> constructs a socket, which starts connecting, and installs the
  four handlers below. \<open>setTimeout(f, 3000)\<close> asks for one run of \<open>f\<close> 3000 ms from
  now; the only other timer of the source clears the status line and is not modelled.
\<close>

definition connectWebSocket :: "app \<Rightarrow> app" where
  "connectWebSocket s = s\<lparr>ws := Some (case ws s of None \<Rightarrow> 0 | Some n \<Rightarrow> Suc n)\<rparr>"

definition init :: "app \<Rightarrow> app" where
  "init s = connectWebSocket s"

definition onopen :: "app \<Rightarrow> app" where
  "onopen s = s\<lparr>isConnected := True, connectionStatus := ''Connected''\<rparr>"

definition onmessage :: "message \<Rightarrow> app \<Rightarrow> app" where
  "onmessage m s = handleMessage m s"

definition reconnect_timeout :: "app \<Rightarrow> app" where
  "reconnect_timeout s = (if \<not> isConnected s then connectWebSocket s else s)"

definition onclose :: "app \<Rightarrow> app" where
  "onclose s =
     (let s' = s\<lparr>isConnected := False, connectionStatus := ''Disconnected''\<rparr>
      in s'\<lparr>timers := timers s' @ [now s' + 3000]\<rparr>)"

definition onerror :: "app \<Rightarrow> app" where
  "onerror s = s\<lparr>connectionStatus := ''Error''\<rparr>"

text \<open>
  The timer service of the runtime: time passes, and the callback of the earliest pending
  timer runs once it is due, after which the timer is gone.
\<close>

definition elapse :: "nat \<Rightarrow> app \<Rightarrow> app" where
  "elapse d s = s\<lparr>now := now s + d\<rparr>"

definition run_timer :: "app \<Rightarrow> app" where
  "run_timer s =
     (case timers s of
        [] \<Rightarrow> s
      | t # ts \<Rightarrow> if t \<le> now s then reconnect_timeout (s\<lparr>timers := ts\<rparr>) else s)"

text \<open>The state the constructor leaves, before \<open>init\<close> opens the socket.\<close>

definition constructed :: app where
  "constructed =
     \<lparr>ws = None, orders = [], ordersArray = [], selectedOrders = [], isConnected = False,
      currentPage = 1, pageSize = 25, maxOrders = 500, connectionStatus = [],
      sent = [], notices = [], modal = None, now = 0, timers = []\<rparr>"

text \<open>
  What holds of \<open>this.orders\<close> and \<open>this.ordersArray\<close> between handlers: every entry
  is stored under its own identifier, and the array is the sorted values of the map.
\<close>

definition keyed :: "(string \<times> order_rec) list \<Rightarrow> bool" where
  "keyed m = (distinct (map fst m) \<and> list_all (\<lambda>(k, v). order_id v = k) m)"

definition in_sync :: "app \<Rightarrow> bool" where
  "in_sync s = (keyed (orders s) \<and> ordersArray s = sort_newest_first (Map_values (orders s)))"

subsection \<open>Notions used in the statements\<close>

text \<open>The frames that reach the cache: \<open>order_item\<close> and \<open>order_updated\<close>.\<close>

definition is_ingest :: "message \<Rightarrow> bool" where
  "is_ingest m = (case m of OrderItem v \<Rightarrow> True | OrderUpdated v \<Rightarrow> True | _ \<Rightarrow> False)"

text \<open>An order with the given identifier, status and timestamp, for concrete runs.\<close>

definition mk_order :: "string \<Rightarrow> string \<Rightarrow> int \<Rightarrow> order_rec" where
  "mk_order i st t =
     \<lparr>order_id = i, customer_name = [], status = st, priority = [], details = [],
      timestamp = t, processed_at = None\<rparr>"

text \<open>
  What one run of \<open>enforceMaxOrdersLimit\<close> removes: \<open>oldestOrders\<close> when the branch is
  taken, nothing otherwise.
\<close>

definition evicted :: "app \<Rightarrow> order_rec list" where
  "evicted s = (if int (length (ordersArray s)) > maxOrders s then oldestOrders s else [])"

text \<open>\<open>b\<close> comes after \<open>a\<close> in the iteration order of the map, which is insertion order.\<close>

definition inserted_before :: "(string \<times> order_rec) list \<Rightarrow> order_rec \<Rightarrow> order_rec \<Rightarrow> bool" where
  "inserted_before m a b = (b \<in> set (tl (dropWhile (\<lambda>v. v \<noteq> a) (Map_values m))))"

text \<open>Every selected identifier is a key of the cache.\<close>

definition selection_in_cache :: "app \<Rightarrow> bool" where
  "selection_in_cache s = (set (selectedOrders s) \<subseteq> set (Map_keys (orders s)))"

text \<open>
  The entry points of the application: the four socket handlers, the reconnection timer
  and the passing of time, and the methods the controls of the page call.
\<close>

datatype action =
    Open
  | Frame message
  | Close
  | Failure
  | Elapse nat
  | TimerDue
  | Toggle string
  | DeselectAll
  | ProcessOne string
  | CloseOne string
  | ProcessSelected
  | CloseSelected
  | Confirm
  | Cancel
  | GoTo int
  | PageSize int
  | MaxOrders "js_number option"

fun perform :: "action \<Rightarrow> app \<Rightarrow> app" where
  "perform Open s = onopen s"
| "perform (Frame m) s = onmessage m s"
| "perform Close s = onclose s"
| "perform Failure s = onerror s"
| "perform (Elapse d) s = elapse d s"
| "perform TimerDue s = run_timer s"
| "perform (Toggle orderId) s = toggleOrderSelection orderId s"
| "perform DeselectAll s = deselectAllOrders s"
| "perform (ProcessOne orderId) s = processOrder orderId s"
| "perform (CloseOne orderId) s = closeOrder orderId s"
| "perform ProcessSelected s = processSelectedOrders s"
| "perform CloseSelected s = closeSelectedOrders s"
| "perform Confirm s = modalConfirm s"
| "perform Cancel s = modalCancel s"
| "perform (GoTo page) s = goToPage page s"
| "perform (PageSize n) s = pageSizeChange n s"
| "perform (MaxOrders inp) s = updateMaxOrdersLimit inp s"

text \<open>A toggle of an identifier that is not a key of the cache.\<close>

definition toggles_unknown :: "action \<Rightarrow> app \<Rightarrow> bool" where
  "toggles_unknown a s =
     (case a of Toggle orderId \<Rightarrow> orderId \<notin> set (Map_keys (orders s)) | _ \<Rightarrow> False)"

text \<open>The current page lies between 1 and the number of pages, or is 1 when there is none.\<close>

definition page_in_range :: "app \<Rightarrow> bool" where
  "page_in_range s = (1 \<le> currentPage s \<and> currentPage s \<le> max 1 (getTotalPages s))"

text \<open>\<open>n\<close> pending orders with different identifiers and increasing timestamps.\<close>

definition sample_orders :: "nat \<Rightarrow> order_rec list" where
  "sample_orders n = map (\<lambda>i. mk_order (replicate (Suc i) CHR ''o'') ''Pending'' (int i)) [0..<n]"

text \<open>The entry points that reach \<open>this.orders\<close>: an ingest and a change of capacity.\<close>

definition changes_cache :: "action \<Rightarrow> bool" where
  "changes_cache a = (case a of Frame m \<Rightarrow> is_ingest m | MaxOrders inp \<Rightarrow> True | _ \<Rightarrow> False)"

subsection \<open>The page around the application\<close>

text \<open>
  \<open>updateProcessSelectedButton\<close> keeps the Process Selected button disabled unless a
  selected identifier belongs to a Pending order, and shows the number of those.
\<close>

definition selectedPendingOrders :: "app \<Rightarrow> string list" where
  "selectedPendingOrders s =
     filter (\<lambda>orderId. case Map_get (orders s) orderId of
                          None \<Rightarrow> False | Some v \<Rightarrow> status v = ''Pending'')
       (selectedOrders s)"

definition processSelectedBtn_disabled :: "app \<Rightarrow> bool" where
  "processSelectedBtn_disabled s = (length (selectedPendingOrders s) = 0)"

text \<open>
  The table body holds the rows that \<open>createOrderRow\<close> built at the last
  \<open>renderCurrentPage\<close>; the click listener that calls \<open>toggleOrderSelection\<close> sits on
  these rows and nowhere else. \<open>renders\<close> tells which entry points reach
  \<open>renderCurrentPage\<close>: the two ingests, a change of capacity, an accepted \<open>goToPage\<close>,
  a change of page size and a \<open>deselectAllOrders\<close> of a non-empty selection.
\<close>

record page =
  app_of :: app
  tableBody :: "order_rec list"

definition renders :: "action \<Rightarrow> app \<Rightarrow> bool" where
  "renders a s =
     (case a of
        Frame m \<Rightarrow> is_ingest m
      | MaxOrders inp \<Rightarrow> inp \<noteq> None
      | GoTo p \<Rightarrow> \<not> (p < 1 \<or> p > getTotalPages s)
      | PageSize n \<Rightarrow> True
      | DeselectAll \<Rightarrow> length (selectedOrders s) \<noteq> 0
      | _ \<Rightarrow> False)"

text \<open>A toggle reaches the application only as a click on a row of the table body.\<close>

definition clickable :: "action \<Rightarrow> page \<Rightarrow> bool" where
  "clickable a pg =
     (case a of Toggle orderId \<Rightarrow> orderId \<in> order_id ` set (tableBody pg) | _ \<Rightarrow> True)"

definition handle :: "action \<Rightarrow> page \<Rightarrow> page" where
  "handle a pg =
     (if clickable a pg then
        let s' = perform a (app_of pg)
        in \<lparr>app_of = s',
            tableBody = (if renders a (app_of pg) then renderCurrentPage s' else tableBody pg)\<rparr>
      else pg)"

text \<open>The page once the constructor and \<open>init\<close> have run: no row yet.\<close>

definition loaded :: page where
  "loaded = \<lparr>app_of = init constructed, tableBody = []\<rparr>"

text \<open>
  What the runtime delivers when the transport of a socket ends: a close event when the
  connection is closed, an error event followed by a close event when it fails.
\<close>

datatype transport_end = Closed | Failed

definition disconnect :: "transport_end \<Rightarrow> app \<Rightarrow> app" where
  "disconnect e s = (case e of Closed \<Rightarrow> onclose s | Failed \<Rightarrow> onclose (onerror s))"

text \<open>
  What holds of the page between two entry points: the selection is inside the cache, the
  array is the sorted values of the map, and every row of the table body is an order of
  the array.
\<close>

definition page_inv :: "page \<Rightarrow> bool" where
  "page_inv pg = (selection_in_cache (app_of pg) \<and> in_sync (app_of pg)
     \<and> set (tableBody pg) \<subseteq> set (ordersArray (app_of pg)))"

section \<open>Properties\<close>

subsection \<open>The map, the sort and the enforcement loop\<close>

lemma set_update_subset: "set (AList.update k v m) \<subseteq> insert (k, v) (set m)"
  by (induction m) auto

lemma keyed_Map_set: "keyed m \<Longrightarrow> keyed (Map_set (order_id v) v m)"
proof -
  assume k: "keyed m"
  then have "distinct (map fst (AList.update (order_id v) v m))"
    by (simp add: keyed_def AList.distinct_update)
  moreover have "\<forall>(k, w) \<in> set (AList.update (order_id v) v m). order_id w = k"
    using k set_update_subset [of "order_id v" v m] by (auto simp: keyed_def list_all_iff)
  ultimately show ?thesis by (simp add: keyed_def Map_set_def list_all_iff)
qed

lemma keyed_filter: "keyed m \<Longrightarrow> keyed (filter P m)"
  unfolding keyed_def by (auto simp: list_all_iff distinct_map_filter)

lemma keyed_keys: "keyed m \<Longrightarrow> map fst m = map order_id (map snd m)"
  unfolding keyed_def by (induction m) auto

lemma keyed_distinct_values: "keyed m \<Longrightarrow> distinct (map snd m)"
  using keyed_keys [of m] unfolding keyed_def by (metis distinct_map)

lemma keyed_inj: "keyed m \<Longrightarrow> inj_on order_id (set (map snd m))"
  using keyed_keys [of m] unfolding keyed_def by (metis distinct_map)

lemma fold_remove_order_orders:
  "orders (fold remove_order es s) = filter (\<lambda>(k, v). k \<notin> order_id ` set es) (orders s)"
proof (induction es arbitrary: s)
  case Nil
  then show ?case by simp
next
  case (Cons e es)
  have "orders (remove_order e s) = filter (\<lambda>(k, v). k \<noteq> order_id e) (orders s)"
    by (simp add: remove_order_def Map_delete_def AList.delete_eq case_prod_unfold neq_commute)
  with Cons show ?case by (auto simp: case_prod_unfold intro: filter_cong)
qed

lemma fold_remove_order_selected:
  "selectedOrders (fold remove_order es s) = filter (\<lambda>x. x \<notin> order_id ` set es) (selectedOrders s)"
proof (induction es arbitrary: s)
  case Nil
  then show ?case by simp
next
  case (Cons e es)
  have "selectedOrders (remove_order e s) = filter (\<lambda>x. x \<noteq> order_id e) (selectedOrders s)"
    by (simp add: remove_order_def Set_delete_def)
  with Cons show ?case by (auto intro: filter_cong)
qed

lemma fold_remove_order_rest:
  "maxOrders (fold remove_order es s) = maxOrders s"
  "currentPage (fold remove_order es s) = currentPage s"
  "pageSize (fold remove_order es s) = pageSize s"
  "isConnected (fold remove_order es s) = isConnected s"
  "sent (fold remove_order es s) = sent s"
  "notices (fold remove_order es s) = notices s"
  "modal (fold remove_order es s) = modal s"
  "timers (fold remove_order es s) = timers s"
  "now (fold remove_order es s) = now s"
  "ws (fold remove_order es s) = ws s"
  by (induction es arbitrary: s; simp add: remove_order_def)+

lemma keyed_values_filter:
  assumes "keyed m" "set es \<subseteq> set (map snd m)"
  shows "map snd (filter (\<lambda>(k, v). k \<notin> order_id ` set es) m) = filter (\<lambda>v. v \<notin> set es) (map snd m)"
proof -
  have inj: "inj_on order_id (set (map snd m))" by (rule keyed_inj [OF assms(1)])
  have kv: "\<And>k v. (k, v) \<in> set m \<Longrightarrow> k = order_id v"
    using assms(1) unfolding keyed_def by (auto simp: list_all_iff)
  have "\<And>k v. (k, v) \<in> set m \<Longrightarrow> (k \<notin> order_id ` set es) = (v \<notin> set es)"
  proof -
    fix k v assume m: "(k, v) \<in> set m"
    then have v: "v \<in> set (map snd m)" by force
    show "(k \<notin> order_id ` set es) = (v \<notin> set es)"
      using kv [OF m] inj v assms(2) by (auto dest: inj_onD)
  qed
  then have "filter (\<lambda>(k, v). k \<notin> order_id ` set es) m = filter (\<lambda>(k, v). v \<notin> set es) m"
    by (intro filter_cong) auto
  then show ?thesis by (simp add: filter_map comp_def case_prod_unfold)
qed

lemma filter_notin_drop: "distinct xs \<Longrightarrow> filter (\<lambda>v. v \<notin> set (drop n xs)) xs = take n xs"
proof -
  assume d: "distinct xs"
  have xs: "xs = take n xs @ drop n xs" by simp
  from d have dj: "set (take n xs) \<inter> set (drop n xs) = {}"
    by (metis append_take_drop_id distinct_append)
  have "filter (\<lambda>v. v \<notin> set (drop n xs)) (take n xs) = take n xs"
    using dj by (auto simp: filter_id_conv)
  moreover have "filter (\<lambda>v. v \<notin> set (drop n xs)) (drop n xs) = []"
    by (simp add: filter_empty_conv)
  ultimately have "filter (\<lambda>v. v \<notin> set (drop n xs)) (take n xs @ drop n xs) = take n xs"
    by (simp only: filter_append append_Nil2)
  then show ?thesis by (simp only: append_take_drop_id)
qed

lemma sort_newest_first_filter:
  "sort_newest_first (filter P vs) = filter P (sort_newest_first vs)"
  by (simp add: sort_newest_first_def filter_sort)

lemma oldestOrders_drop:
  assumes "0 \<le> maxOrders s" "int (length (ordersArray s)) > maxOrders s"
  shows "oldestOrders s = drop (nat (maxOrders s)) (ordersArray s)"
  using assms by (auto simp: oldestOrders_def slice_from_def slice_index_def max_def nat_diff_distrib intro!: arg_cong2 [where f = drop])

lemma in_sync_distinct: "in_sync s \<Longrightarrow> distinct (ordersArray s)"
  by (simp add: in_sync_def sort_newest_first_def Map_values_def keyed_distinct_values)

lemma in_sync_set: "in_sync s \<Longrightarrow> set (ordersArray s) = set (Map_values (orders s))"
  by (simp add: in_sync_def sort_newest_first_def)

lemma in_sync_length: "in_sync s \<Longrightarrow> length (ordersArray s) = length (orders s)"
  by (simp add: in_sync_def sort_newest_first_def Map_values_def)

lemma enforce_noop:
  "\<not> int (length (ordersArray s)) > maxOrders s \<Longrightarrow> enforceMaxOrdersLimit s = s"
  by (simp add: enforceMaxOrdersLimit_def)

lemma enforce_orders:
  assumes "in_sync s" "0 \<le> maxOrders s"
  shows "orders (enforceMaxOrdersLimit s) =
         filter (\<lambda>(k, v). k \<notin> order_id ` set (drop (nat (maxOrders s)) (ordersArray s))) (orders s)"
proof (cases "int (length (ordersArray s)) > maxOrders s")
  case True
  then show ?thesis
    using assms by (simp add: enforceMaxOrdersLimit_def Let_def fold_remove_order_orders oldestOrders_drop)
next
  case False
  then show ?thesis by (simp add: enforceMaxOrdersLimit_def)
qed

lemma enforce_selected:
  assumes "0 \<le> maxOrders s"
  shows "selectedOrders (enforceMaxOrdersLimit s) =
         filter (\<lambda>x. x \<notin> order_id ` set (drop (nat (maxOrders s)) (ordersArray s))) (selectedOrders s)"
proof (cases "int (length (ordersArray s)) > maxOrders s")
  case True
  then show ?thesis
    using assms by (simp add: enforceMaxOrdersLimit_def Let_def fold_remove_order_selected oldestOrders_drop)
next
  case False
  then show ?thesis by (simp add: enforceMaxOrdersLimit_def)
qed

lemma enforce_values:
  assumes "in_sync s" "0 \<le> maxOrders s"
  shows "Map_values (orders (enforceMaxOrdersLimit s)) =
         filter (\<lambda>v. v \<notin> set (drop (nat (maxOrders s)) (ordersArray s))) (Map_values (orders s))"
proof -
  have "set (drop (nat (maxOrders s)) (ordersArray s)) \<subseteq> set (map snd (orders s))"
    using in_sync_set [OF assms(1)] set_drop_subset [of "nat (maxOrders s)" "ordersArray s"]
    by (simp add: Map_values_def)
  with assms show ?thesis
    by (simp add: enforce_orders Map_values_def keyed_values_filter in_sync_def)
qed

lemma enforce_array:
  assumes "in_sync s" "0 \<le> maxOrders s"
  shows "ordersArray (enforceMaxOrdersLimit s) = take (nat (maxOrders s)) (ordersArray s)"
proof (cases "int (length (ordersArray s)) > maxOrders s")
  case True
  have "ordersArray (enforceMaxOrdersLimit s) =
        sort_newest_first (Map_values (orders (enforceMaxOrdersLimit s)))"
    using True by (simp add: enforceMaxOrdersLimit_def Let_def)
  also have "\<dots> = filter (\<lambda>v. v \<notin> set (drop (nat (maxOrders s)) (ordersArray s))) (ordersArray s)"
    using assms by (simp add: enforce_values sort_newest_first_filter in_sync_def)
  also have "\<dots> = take (nat (maxOrders s)) (ordersArray s)"
    by (rule filter_notin_drop [OF in_sync_distinct [OF assms(1)]])
  finally show ?thesis .
next
  case False
  then show ?thesis by (simp add: enforceMaxOrdersLimit_def)
qed

lemma enforce_other:
  "maxOrders (enforceMaxOrdersLimit s) = maxOrders s"
  "currentPage (enforceMaxOrdersLimit s) = currentPage s"
  "pageSize (enforceMaxOrdersLimit s) = pageSize s"
  "isConnected (enforceMaxOrdersLimit s) = isConnected s"
  "sent (enforceMaxOrdersLimit s) = sent s"
  "notices (enforceMaxOrdersLimit s) = notices s"
  "modal (enforceMaxOrdersLimit s) = modal s"
  "timers (enforceMaxOrdersLimit s) = timers s"
  "now (enforceMaxOrdersLimit s) = now s"
  "ws (enforceMaxOrdersLimit s) = ws s"
  by (simp_all add: enforceMaxOrdersLimit_def Let_def fold_remove_order_rest)

lemma enforce_in_sync:
  assumes "in_sync s" "0 \<le> maxOrders s"
  shows "in_sync (enforceMaxOrdersLimit s)"
proof -
  have "keyed (orders (enforceMaxOrdersLimit s))"
    using assms by (simp add: enforce_orders keyed_filter in_sync_def)
  moreover have "ordersArray (enforceMaxOrdersLimit s) =
      sort_newest_first (Map_values (orders (enforceMaxOrdersLimit s)))"
    using assms(1) by (simp add: enforceMaxOrdersLimit_def Let_def in_sync_def)
  ultimately show ?thesis by (simp add: in_sync_def)
qed

lemma enforce_length:
  assumes "in_sync s" "0 \<le> maxOrders s"
  shows "int (length (orders (enforceMaxOrdersLimit s))) = min (int (length (orders s))) (maxOrders s)"
proof -
  have "length (orders (enforceMaxOrdersLimit s)) = length (ordersArray (enforceMaxOrdersLimit s))"
    using enforce_in_sync [OF assms] by (simp add: in_sync_length)
  then have "length (orders (enforceMaxOrdersLimit s)) = min (length (orders s)) (nat (maxOrders s))"
    using assms by (simp add: enforce_array in_sync_length min.commute)
  with assms(2) show ?thesis by linarith
qed

text \<open>The state between the sort and the enforcement in the two ingest handlers.\<close>

lemma ingest_eq:
  "addOrderToTable v s = enforceMaxOrdersLimit
     (s\<lparr>orders := Map_set (order_id v) v (orders s),
        ordersArray := sort_newest_first (Map_values (Map_set (order_id v) v (orders s)))\<rparr>)"
  "updateOrderInTable v s = addOrderToTable v s"
  by (simp_all add: addOrderToTable_def updateOrderInTable_def Let_def)

lemma stored_in_sync:
  "keyed (orders s) \<Longrightarrow>
   in_sync (s\<lparr>orders := Map_set (order_id v) v (orders s),
        ordersArray := sort_newest_first (Map_values (Map_set (order_id v) v (orders s)))\<rparr>)"
  by (simp add: in_sync_def keyed_Map_set)

lemma addOrderToTable_in_sync:
  "keyed (orders s) \<Longrightarrow> 0 \<le> maxOrders s \<Longrightarrow> in_sync (addOrderToTable v s)"
  by (simp add: ingest_eq(1) enforce_in_sync stored_in_sync)

lemma addOrderToTable_length:
  assumes "keyed (orders s)" "0 \<le> maxOrders s"
  shows "int (length (orders (addOrderToTable v s))) =
         min (int (length (Map_set (order_id v) v (orders s)))) (maxOrders s)"
  using enforce_length [OF stored_in_sync [OF assms(1), of v]] assms(2)
  by (simp add: ingest_eq(1))

lemma handleMessage_maxOrders: "maxOrders (handleMessage m s) = maxOrders s"
  by (cases m) (simp_all add: handleMessage_def ingest_eq enforce_other showStatus_def)

lemma handleMessage_keyed:
  "keyed (orders s) \<Longrightarrow> 0 \<le> maxOrders s \<Longrightarrow> keyed (orders (handleMessage m s))"
  using addOrderToTable_in_sync [of s]
  by (cases m) (auto simp: handleMessage_def ingest_eq(2) showStatus_def in_sync_def)

lemma fold_handleMessage_inv:
  "keyed (orders s) \<Longrightarrow> 0 \<le> maxOrders s \<Longrightarrow>
   keyed (orders (fold handleMessage ms s)) \<and> maxOrders (fold handleMessage ms s) = maxOrders s"
  by (induction ms arbitrary: s) (simp_all add: handleMessage_keyed handleMessage_maxOrders)

text \<open>
  With a capacity that is not negative, the cache holds at most \<open>maxOrders\<close> orders
  after every ingest of any non-empty sequence of ingests, and one ingest leaves the smaller
  of the size after the insertion and the capacity.
\<close>

lemma ingest_bounded:
  assumes "keyed (orders s)" and "0 \<le> maxOrders s"
    and "ms \<noteq> []" and "\<forall>m \<in> set ms. is_ingest m"
  shows "int (length (orders (fold handleMessage ms s))) \<le> maxOrders (fold handleMessage ms s)
       \<and> maxOrders (fold handleMessage ms s) = maxOrders s
       \<and> int (length (orders (addOrderToTable v s))) =
           min (int (length (Map_set (order_id v) v (orders s)))) (maxOrders s)
       \<and> int (length (orders (updateOrderInTable v s))) =
           min (int (length (Map_set (order_id v) v (orders s)))) (maxOrders s)"
proof -
  from assms(3) obtain ms' m where ms: "ms = ms' @ [m]"
    by (metis rev_exhaust)
  define s' where "s' = fold handleMessage ms' s"
  have inv: "keyed (orders s')" "maxOrders s' = maxOrders s"
    using fold_handleMessage_inv [OF assms(1,2), of ms'] by (simp_all add: s'_def)
  from assms(4) ms have "is_ingest m" by simp
  then obtain w where "handleMessage m s' = addOrderToTable w s'"
    by (cases m) (simp_all add: is_ingest_def handleMessage_def ingest_eq(2))
  then have "int (length (orders (handleMessage m s'))) \<le> maxOrders s'"
    using addOrderToTable_length [OF inv(1), of w] inv(2) assms(2) by simp
  then have "int (length (orders (fold handleMessage ms s))) \<le> maxOrders s"
    by (simp add: ms s'_def inv(2) [unfolded s'_def])
  moreover have "maxOrders (fold handleMessage ms s) = maxOrders s"
    using fold_handleMessage_inv [OF assms(1,2), of ms] by simp
  ultimately show ?thesis
    using addOrderToTable_length [OF assms(1,2), of v] by (simp add: ingest_eq(2))
qed

text \<open>
  Claim C1 at a failing input. The capacity field accepts \<open>-5\<close>
  (\<open>updateMaxOrdersLimit\<close> keeps every number but \<open>NaN\<close> and \<open>0\<close>); the next ingest
  is evicted at once, and the cache, with no order in it, is above its capacity of
  \<open>-5\<close> after the call, and will never be equal to it.
\<close>

theorem negative_capacity_exceeded:
  "maxOrders (handleMessage (OrderItem (mk_order ''A'' ''Pending'' 1))
        (updateMaxOrdersLimit (Some (Num (- 5))) constructed)) = - 5
   \<and> orders (handleMessage (OrderItem (mk_order ''A'' ''Pending'' 1))
        (updateMaxOrdersLimit (Some (Num (- 5))) constructed)) = []
   \<and> maxOrders (handleMessage (OrderItem (mk_order ''A'' ''Pending'' 1))
        (updateMaxOrdersLimit (Some (Num (- 5))) constructed))
      < int (length (orders (handleMessage (OrderItem (mk_order ''A'' ''Pending'' 1))
        (updateMaxOrdersLimit (Some (Num (- 5))) constructed))))"
  by (simp add: handleMessage_def addOrderToTable_def updateMaxOrdersLimit_def or_500_def
      constructed_def enforceMaxOrdersLimit_def oldestOrders_def slice_from_def slice_index_def
      sort_newest_first_def Map_values_def Map_set_def Map_delete_def Set_delete_def
      remove_order_def Let_def mk_order_def)

subsection \<open>Which orders an eviction removes\<close>

lemma evicted_drop:
  "0 \<le> maxOrders s \<Longrightarrow> evicted s = drop (nat (maxOrders s)) (ordersArray s)"
  by (simp add: evicted_def oldestOrders_drop)

lemma after_first_occurrence:
  "filter P vs = as @ bs \<Longrightarrow> r \<in> set as \<Longrightarrow> e \<in> set bs \<Longrightarrow>
   e \<in> set (tl (dropWhile (\<lambda>v. v \<noteq> r) vs))"
proof (induction vs arbitrary: as)
  case Nil
  then show ?case by simp
next
  case (Cons x vs)
  show ?case
  proof (cases "P x")
    case True
    with Cons.prems obtain as' where as: "as = x # as'" and rest: "filter P vs = as' @ bs"
      by (cases as) auto
    show ?thesis
    proof (cases "x = r")
      case True
      have "e \<in> set (filter P vs)" using rest Cons.prems(3) by simp
      then show ?thesis using True by simp
    next
      case False
      with as Cons.prems(2) have "r \<in> set as'" by simp
      from Cons.IH [OF rest this Cons.prems(3)] False show ?thesis by simp
    qed
  next
    case False
    with Cons.prems have rest: "filter P vs = as @ bs" by simp
    show ?thesis
    proof (cases "x = r")
      case True
      have "e \<in> set (filter P vs)" using rest Cons.prems(3) by simp
      then show ?thesis using True by simp
    next
      case False
      from Cons.IH [OF rest Cons.prems(2,3)] False show ?thesis by simp
    qed
  qed
qed

lemma sorted_newest_first:
  assumes "r \<in> set (take n (sort_newest_first vs))" "e \<in> set (drop n (sort_newest_first vs))"
  shows "timestamp e \<le> timestamp r"
proof -
  let ?f = "\<lambda>v. - timestamp v"
  have "sorted (map ?f (take n (sort_newest_first vs)) @ map ?f (drop n (sort_newest_first vs)))"
    unfolding map_append [symmetric] append_take_drop_id
    by (simp add: sort_newest_first_def)
  then have "\<forall>x \<in> set (map ?f (take n (sort_newest_first vs))).
             \<forall>y \<in> set (map ?f (drop n (sort_newest_first vs))). x \<le> y"
    by (simp add: sorted_append)
  with assms have "?f r \<le> ?f e" by simp
  then show ?thesis by simp
qed

lemma stable_newest_first:
  assumes "r \<in> set (take n (sort_newest_first vs))" "e \<in> set (drop n (sort_newest_first vs))"
    and "timestamp e = timestamp r"
  shows "e \<in> set (tl (dropWhile (\<lambda>v. v \<noteq> r) vs))"
proof -
  let ?P = "\<lambda>v. - timestamp v = - timestamp r"
  let ?arr = "sort_newest_first vs"
  have "filter ?P vs = filter ?P ?arr"
    by (simp only: sort_newest_first_def sort_key_stable)
  also have "\<dots> = filter ?P (take n ?arr) @ filter ?P (drop n ?arr)"
    by (simp only: filter_append [symmetric] append_take_drop_id)
  finally have split: "filter ?P vs = filter ?P (take n ?arr) @ filter ?P (drop n ?arr)" .
  have "r \<in> set (filter ?P (take n ?arr))" using assms(1) by simp
  moreover have "e \<in> set (filter ?P (drop n ?arr))" using assms(2,3) by simp
  ultimately show ?thesis by (rule after_first_occurrence [OF split])
qed

lemma enforce_retained:
  assumes "in_sync s" "0 \<le> maxOrders s"
  shows "set (Map_values (orders (enforceMaxOrdersLimit s))) = set (take (nat (maxOrders s)) (ordersArray s))"
  using in_sync_set [OF enforce_in_sync [OF assms]] assms by (simp add: enforce_array)

lemma three_ingests_capacity_two:
  assumes "timestamp a < timestamp b" "timestamp b < timestamp c"
    "distinct [order_id a, order_id b, order_id c]"
  shows "Map_keys (orders (fold handleMessage [OrderItem a, OrderItem b, OrderItem c]
            (updateMaxOrdersLimit (Some (Num 2)) constructed))) = [order_id b, order_id c]"
  using assms
  by (auto simp add: handleMessage_def addOrderToTable_def updateMaxOrdersLimit_def or_500_def
      constructed_def enforceMaxOrdersLimit_def oldestOrders_def slice_from_def slice_index_def
      sort_newest_first_def Map_values_def Map_keys_def Map_set_def Map_delete_def Set_delete_def
      remove_order_def Let_def)

text \<open>
  Claim C2, as the code has it. One run of the enforcement removes exactly
  \<open>max 0 (size - capacity)\<close> orders and keeps the others in place; every removed order
  is at most as new as every order kept; and of two orders with the same timestamp the
  one kept was inserted before the one removed, so among equal timestamps the entries
  inserted last go first. With capacity 2 and ingests of \<open>a\<close>, \<open>b\<close>, \<open>c\<close> with
  increasing timestamps, exactly \<open>b\<close> and \<open>c\<close> remain. The capacity is not negative.
\<close>

theorem eviction_order:
  assumes "in_sync s" and "0 \<le> maxOrders s"
  shows "int (length (evicted s)) = max 0 (int (length (orders s)) - maxOrders s)
       \<and> Map_values (orders (enforceMaxOrdersLimit s)) =
           filter (\<lambda>v. v \<notin> set (evicted s)) (Map_values (orders s))
       \<and> (\<forall>e \<in> set (evicted s). \<forall>r \<in> set (Map_values (orders (enforceMaxOrdersLimit s))).
             timestamp e \<le> timestamp r
             \<and> (timestamp e = timestamp r \<longrightarrow> inserted_before (orders s) r e))
       \<and> (timestamp a < timestamp b \<and> timestamp b < timestamp c
            \<and> distinct [order_id a, order_id b, order_id c] \<longrightarrow>
          Map_keys (orders (fold handleMessage [OrderItem a, OrderItem b, OrderItem c]
            (updateMaxOrdersLimit (Some (Num 2)) constructed))) = [order_id b, order_id c])"
proof -
  let ?n = "nat (maxOrders s)"
  have ev: "evicted s = drop ?n (ordersArray s)" by (rule evicted_drop [OF assms(2)])
  have arr: "ordersArray s = sort_newest_first (Map_values (orders s))"
    using assms(1) by (simp add: in_sync_def)
  have "int (length (evicted s)) = max 0 (int (length (orders s)) - maxOrders s)"
    using assms(2) by (simp add: ev in_sync_length [OF assms(1)])
  moreover have "Map_values (orders (enforceMaxOrdersLimit s)) =
      filter (\<lambda>v. v \<notin> set (evicted s)) (Map_values (orders s))"
    by (simp add: ev enforce_values [OF assms])
  moreover have "timestamp e \<le> timestamp r
        \<and> (timestamp e = timestamp r \<longrightarrow> inserted_before (orders s) r e)"
    if "e \<in> set (evicted s)" "r \<in> set (Map_values (orders (enforceMaxOrdersLimit s)))" for e r
  proof -
    from that(1) have e: "e \<in> set (drop ?n (sort_newest_first (Map_values (orders s))))"
      by (simp add: ev arr)
    from that(2) have r: "r \<in> set (take ?n (sort_newest_first (Map_values (orders s))))"
      by (simp add: enforce_retained [OF assms] arr)
    show ?thesis
      using sorted_newest_first [OF r e] stable_newest_first [OF r e]
      by (simp add: inserted_before_def)
  qed
  moreover have "timestamp a < timestamp b \<and> timestamp b < timestamp c
            \<and> distinct [order_id a, order_id b, order_id c] \<longrightarrow>
          Map_keys (orders (fold handleMessage [OrderItem a, OrderItem b, OrderItem c]
            (updateMaxOrdersLimit (Some (Num 2)) constructed))) = [order_id b, order_id c]"
    using three_ingests_capacity_two [of a b c] by blast
  ultimately show ?thesis by blast
qed

theorem eviction_order_witness:
  "in_sync ((fold handleMessage [OrderItem (mk_order ''A'' ''Pending'' 5),
        OrderItem (mk_order ''B'' ''Pending'' 5)] constructed)\<lparr>maxOrders := 1\<rparr>)
   \<and> mk_order ''B'' ''Pending'' 5 \<in> set (evicted ((fold handleMessage
        [OrderItem (mk_order ''A'' ''Pending'' 5), OrderItem (mk_order ''B'' ''Pending'' 5)]
        constructed)\<lparr>maxOrders := 1\<rparr>))
   \<and> mk_order ''A'' ''Pending'' 5 \<in> set (Map_values (orders (enforceMaxOrdersLimit
        ((fold handleMessage [OrderItem (mk_order ''A'' ''Pending'' 5),
          OrderItem (mk_order ''B'' ''Pending'' 5)] constructed)\<lparr>maxOrders := 1\<rparr>))))
   \<and> inserted_before (orders ((fold handleMessage [OrderItem (mk_order ''A'' ''Pending'' 5),
        OrderItem (mk_order ''B'' ''Pending'' 5)] constructed)\<lparr>maxOrders := 1\<rparr>))
        (mk_order ''A'' ''Pending'' 5) (mk_order ''B'' ''Pending'' 5)
   \<and> timestamp (mk_order ''A'' ''Pending'' 1) < timestamp (mk_order ''B'' ''Pending'' 2)
   \<and> timestamp (mk_order ''B'' ''Pending'' 2) < timestamp (mk_order ''C'' ''Pending'' 3)
   \<and> Map_keys (orders (fold handleMessage [OrderItem (mk_order ''A'' ''Pending'' 1),
          OrderItem (mk_order ''B'' ''Pending'' 2), OrderItem (mk_order ''C'' ''Pending'' 3)]
          (updateMaxOrdersLimit (Some (Num 2)) constructed))) = [''B'', ''C'']"
proof -
  define s0 where "s0 = (fold handleMessage [OrderItem (mk_order ''A'' ''Pending'' 5),
        OrderItem (mk_order ''B'' ''Pending'' 5)] constructed)\<lparr>maxOrders := 1\<rparr>"
  have s0: "s0 = constructed\<lparr>orders := [(''A'', mk_order ''A'' ''Pending'' 5),
        (''B'', mk_order ''B'' ''Pending'' 5)],
      ordersArray := [mk_order ''A'' ''Pending'' 5, mk_order ''B'' ''Pending'' 5],
      maxOrders := 1\<rparr>"
    by (simp add: s0_def handleMessage_def addOrderToTable_def constructed_def
        enforceMaxOrdersLimit_def sort_newest_first_def Map_values_def Map_set_def
        Let_def mk_order_def)
  have h1: "in_sync s0"
    by (simp add: s0 in_sync_def keyed_def sort_newest_first_def Map_values_def
        constructed_def mk_order_def)
  have h2: "0 \<le> maxOrders s0" by (simp add: s0)
  have e: "mk_order ''B'' ''Pending'' 5 \<in> set (evicted s0)"
    by (simp add: s0 evicted_def oldestOrders_def slice_from_def slice_index_def constructed_def)
  have r: "mk_order ''A'' ''Pending'' 5 \<in> set (Map_values (orders (enforceMaxOrdersLimit s0)))"
    by (simp add: s0 enforceMaxOrdersLimit_def oldestOrders_def slice_from_def slice_index_def
        constructed_def remove_order_def Map_delete_def Set_delete_def Map_values_def
        mk_order_def Let_def)
  have t: "timestamp (mk_order ''B'' ''Pending'' 5) = timestamp (mk_order ''A'' ''Pending'' 5)"
    by (simp add: mk_order_def)
  have k: "timestamp (mk_order ''A'' ''Pending'' 1) < timestamp (mk_order ''B'' ''Pending'' 2)
      \<and> timestamp (mk_order ''B'' ''Pending'' 2) < timestamp (mk_order ''C'' ''Pending'' 3)
      \<and> distinct [order_id (mk_order ''A'' ''Pending'' 1), order_id (mk_order ''B'' ''Pending'' 2),
          order_id (mk_order ''C'' ''Pending'' 3)]"
    by (simp add: mk_order_def)
  have ids: "order_id (mk_order ''B'' ''Pending'' 2) = ''B''"
    "order_id (mk_order ''C'' ''Pending'' 3) = ''C''"
    by (simp_all add: mk_order_def)
  note th = eviction_order [OF h1 h2, of "mk_order ''A'' ''Pending'' 1"
      "mk_order ''B'' ''Pending'' 2" "mk_order ''C'' ''Pending'' 3"]
  from th e r t have "inserted_before (orders s0) (mk_order ''A'' ''Pending'' 5)
      (mk_order ''B'' ''Pending'' 5)" by blast
  moreover from th k have "Map_keys (orders (fold handleMessage
      [OrderItem (mk_order ''A'' ''Pending'' 1), OrderItem (mk_order ''B'' ''Pending'' 2),
       OrderItem (mk_order ''C'' ''Pending'' 3)]
      (updateMaxOrdersLimit (Some (Num 2)) constructed))) =
      [order_id (mk_order ''B'' ''Pending'' 2), order_id (mk_order ''C'' ''Pending'' 3)]"
    by blast
  then have "Map_keys (orders (fold handleMessage
      [OrderItem (mk_order ''A'' ''Pending'' 1), OrderItem (mk_order ''B'' ''Pending'' 2),
       OrderItem (mk_order ''C'' ''Pending'' 3)]
      (updateMaxOrdersLimit (Some (Num 2)) constructed))) = [''B'', ''C'']"
    by (simp only: ids)
  ultimately show ?thesis
    using h1 e r k unfolding s0_def by blast
qed

text \<open>
  The claim as worded fails on ties: with capacity 1 and two orders of the same
  timestamp, the one inserted first stays and the one inserted last is evicted.
\<close>

theorem eviction_ties_counterexample:
  "timestamp (mk_order ''A'' ''Pending'' 5) = timestamp (mk_order ''B'' ''Pending'' 5)
   \<and> Map_keys (orders (fold handleMessage
        [OrderItem (mk_order ''A'' ''Pending'' 5), OrderItem (mk_order ''B'' ''Pending'' 5)]
        (updateMaxOrdersLimit (Some (Num 1)) constructed))) = [''A'']"
  by (simp add: handleMessage_def addOrderToTable_def updateMaxOrdersLimit_def or_500_def
      constructed_def enforceMaxOrdersLimit_def oldestOrders_def slice_from_def slice_index_def
      sort_newest_first_def Map_values_def Map_keys_def Map_set_def Map_delete_def Set_delete_def
      remove_order_def Let_def mk_order_def)

subsection \<open>The selection and the cache\<close>

lemma fold_processOrder_orders:
  "orders (fold processOrder ids s) = orders s \<and> selectedOrders (fold processOrder ids s) = selectedOrders s"
  by (induction ids arbitrary: s) (simp_all add: processOrder_def showStatus_def ws_send_def)

lemma fold_performCloseOrder_orders:
  "orders (fold performCloseOrder ids s) = orders s
   \<and> selectedOrders (fold performCloseOrder ids s) = selectedOrders s"
  by (induction ids arbitrary: s) (simp_all add: performCloseOrder_def showStatus_def ws_send_def)

lemma modalConfirm_orders:
  "orders (modalConfirm s) = orders s \<and> selectedOrders (modalConfirm s) = selectedOrders s"
  by (simp add: modalConfirm_def run_on_confirm_def hideConfirmationModal_def
      performCloseOrder_def performCloseSelectedOrders_def showStatus_def ws_send_def Let_def
      fold_performCloseOrder_orders split: option.splits on_confirm.splits)

lemma commands_orders:
  "orders (processOrder i s) = orders s \<and> selectedOrders (processOrder i s) = selectedOrders s"
  "orders (closeOrder i s) = orders s \<and> selectedOrders (closeOrder i s) = selectedOrders s"
  "orders (processSelectedOrders s) = orders s \<and> selectedOrders (processSelectedOrders s) = selectedOrders s"
  "orders (closeSelectedOrders s) = orders s \<and> selectedOrders (closeSelectedOrders s) = selectedOrders s"
  "orders (modalCancel s) = orders s \<and> selectedOrders (modalCancel s) = selectedOrders s"
  by (simp_all add: processOrder_def closeOrder_def processSelectedOrders_def closeSelectedOrders_def
      modalCancel_def hideConfirmationModal_def showConfirmationModal_def showStatus_def ws_send_def
      Let_def fold_processOrder_orders split: option.splits)

lemma connection_orders:
  "orders (onopen s) = orders s \<and> selectedOrders (onopen s) = selectedOrders s"
  "orders (onclose s) = orders s \<and> selectedOrders (onclose s) = selectedOrders s"
  "orders (onerror s) = orders s \<and> selectedOrders (onerror s) = selectedOrders s"
  "orders (elapse d s) = orders s \<and> selectedOrders (elapse d s) = selectedOrders s"
  "orders (run_timer s) = orders s \<and> selectedOrders (run_timer s) = selectedOrders s"
  by (simp_all add: onopen_def onclose_def onerror_def elapse_def run_timer_def
      reconnect_timeout_def connectWebSocket_def Let_def split: list.splits)

lemma paging_orders:
  "orders (goToPage p s) = orders s \<and> selectedOrders (goToPage p s) = selectedOrders s"
  "orders (pageSizeChange n s) = orders s \<and> selectedOrders (pageSizeChange n s) = selectedOrders s"
  by (simp_all add: goToPage_def pageSizeChange_def)

lemma enforce_orders_any:
  "orders (enforceMaxOrdersLimit s) = filter (\<lambda>(k, v). k \<notin> order_id ` set (evicted s)) (orders s)"
  by (simp add: enforceMaxOrdersLimit_def evicted_def Let_def fold_remove_order_orders)

lemma enforce_selected_any:
  "selectedOrders (enforceMaxOrdersLimit s) = filter (\<lambda>x. x \<notin> order_id ` set (evicted s)) (selectedOrders s)"
  by (simp add: enforceMaxOrdersLimit_def evicted_def Let_def fold_remove_order_selected)

lemma enforce_selection:
  "selection_in_cache s \<Longrightarrow> selection_in_cache (enforceMaxOrdersLimit s)"
  unfolding selection_in_cache_def Map_keys_def enforce_orders_any enforce_selected_any
  by force

lemma ingest_selection:
  assumes "selection_in_cache s"
  shows "selection_in_cache (addOrderToTable v s)"
proof -
  have "selection_in_cache (s\<lparr>orders := Map_set (order_id v) v (orders s),
        ordersArray := sort_newest_first (Map_values (Map_set (order_id v) v (orders s)))\<rparr>)"
    using assms by (auto simp: selection_in_cache_def Map_keys_def Map_set_def AList.dom_update)
  then show ?thesis by (simp only: ingest_eq(1) enforce_selection)
qed

lemma handleMessage_selection:
  "selection_in_cache s \<Longrightarrow> selection_in_cache (handleMessage m s)"
  by (cases m) (simp_all add: handleMessage_def ingest_eq(2) ingest_selection,
      simp_all add: selection_in_cache_def showStatus_def)

lemma updateMaxOrdersLimit_selection:
  "selection_in_cache s \<Longrightarrow> selection_in_cache (updateMaxOrdersLimit inp s)"
proof (cases inp)
  case None
  then show "selection_in_cache s \<Longrightarrow> ?thesis" by (simp add: updateMaxOrdersLimit_def)
next
  case (Some n)
  assume "selection_in_cache s"
  then have "selection_in_cache (s\<lparr>maxOrders := or_500 n\<rparr>)" by (simp add: selection_in_cache_def)
  then show ?thesis by (simp add: Some updateMaxOrdersLimit_def enforce_selection)
qed

lemma toggle_selection:
  "selection_in_cache s \<Longrightarrow> orderId \<in> set (Map_keys (orders s)) \<Longrightarrow>
   selection_in_cache (toggleOrderSelection orderId s)"
  by (auto simp: selection_in_cache_def toggleOrderSelection_def Set_has_def Set_add_def Set_delete_def)

lemma deselect_selection: "selection_in_cache (deselectAllOrders s)"
  by (simp add: selection_in_cache_def deselectAllOrders_def showStatus_def)

lemma same_cache_selection:
  "orders t = orders s \<and> selectedOrders t = selectedOrders s \<Longrightarrow>
   selection_in_cache t = selection_in_cache s"
  by (simp add: selection_in_cache_def)

text \<open>
  Every entry point keeps the selection inside the key set of the cache, a toggle when its
  identifier is a key; and every order an enforcement evicts leaves the cache and the
  selection together.
\<close>

lemma selection_kept:
  assumes "selection_in_cache s" and "\<not> toggles_unknown a s"
  shows "selection_in_cache (perform a s)
       \<and> (\<forall>v \<in> set (evicted s).
             order_id v \<notin> set (Map_keys (orders (enforceMaxOrdersLimit s)))
             \<and> order_id v \<notin> set (selectedOrders (enforceMaxOrdersLimit s)))"
proof -
  have "selection_in_cache (perform a s)"
  proof (cases a)
    case (Frame m)
    then show ?thesis using assms(1) by (simp add: onmessage_def handleMessage_selection)
  next
    case (Toggle orderId)
    then show ?thesis using assms by (simp add: toggles_unknown_def toggle_selection)
  next
    case (MaxOrders inp)
    then show ?thesis using assms(1) by (simp add: updateMaxOrdersLimit_selection)
  next
    case DeselectAll
    then show ?thesis by (simp add: deselect_selection)
  qed (simp_all add: assms(1) same_cache_selection commands_orders connection_orders
      paging_orders modalConfirm_orders)
  moreover have "\<forall>v \<in> set (evicted s).
             order_id v \<notin> set (Map_keys (orders (enforceMaxOrdersLimit s)))
             \<and> order_id v \<notin> set (selectedOrders (enforceMaxOrdersLimit s))"
    unfolding Map_keys_def enforce_orders_any enforce_selected_any by force
  ultimately show ?thesis by blast
qed

subsection \<open>Pages\<close>

lemma total_pages_cover:
  assumes "0 < pageSize s"
  shows "int (length (ordersArray s)) \<le> getTotalPages s * pageSize s" and "0 \<le> getTotalPages s"
proof -
  let ?x = "real (length (ordersArray s)) / real_of_int (pageSize s)"
  have "?x \<le> real_of_int (getTotalPages s)"
    by (simp add: getTotalPages_def)
  then have "real (length (ordersArray s)) \<le> real_of_int (getTotalPages s) * real_of_int (pageSize s)"
    using assms by (simp add: pos_divide_le_eq)
  then have "real_of_int (int (length (ordersArray s))) \<le> real_of_int (getTotalPages s * pageSize s)"
    by simp
  then show "int (length (ordersArray s)) \<le> getTotalPages s * pageSize s"
    by (simp only: of_int_le_iff)
  have "0 \<le> ?x" using assms by simp
  then show "0 \<le> getTotalPages s"
    unfolding getTotalPages_def by (smt (verit) ceiling_mono ceiling_zero)
qed

lemma min_diff_min: "(a::nat) \<le> n \<Longrightarrow> min (a + b) n - min a n = min b (n - a)"
  by arith

lemma take_min_length: "take (min b (length ys)) ys = take b ys"
  by (cases "b \<le> length ys") (simp_all add: min_def)

lemma page_items_take_drop:
  assumes "0 < pageSize s" "1 \<le> p"
  shows "page_items s p = take (nat (pageSize s)) (drop (nat ((p - 1) * pageSize s)) (ordersArray s))"
proof -
  let ?n = "length (ordersArray s)"
  let ?a = "nat ((p - 1) * pageSize s)"
  let ?b = "nat (pageSize s)"
  have nn: "0 \<le> (p - 1) * pageSize s" using assms by simp
  have k: "slice_index ?n ((p - 1) * pageSize s) = min ?a ?n"
    using nn by (simp add: slice_index_def)
  have e: "slice_index ?n ((p - 1) * pageSize s + pageSize s) = min (?a + ?b) ?n"
    using nn assms(1) by (simp add: slice_index_def nat_add_distrib)
  have "page_items s p = take (min (?a + ?b) ?n - min ?a ?n) (drop (min ?a ?n) (ordersArray s))"
    by (simp add: page_items_def renderCurrentPage_def slice_def Let_def k e)
  also have "\<dots> = take ?b (drop ?a (ordersArray s))"
  proof (cases "?a \<le> ?n")
    case True
    have len: "length (drop ?a (ordersArray s)) = ?n - ?a" by simp
    from True have "min (?a + ?b) ?n - min ?a ?n = min ?b (?n - ?a)" by (rule min_diff_min)
    moreover from True have "min ?a ?n = ?a" by simp
    ultimately have "take (min (?a + ?b) ?n - min ?a ?n) (drop (min ?a ?n) (ordersArray s))
        = take (min ?b (length (drop ?a (ordersArray s)))) (drop ?a (ordersArray s))"
      by (simp only: len)
    also have "\<dots> = take ?b (drop ?a (ordersArray s))"
      by (rule take_min_length)
    finally show ?thesis .
  next
    case False
    then show ?thesis by simp
  qed
  finally show ?thesis .
qed

lemma page_items_length:
  assumes "0 < pageSize s"
  shows "length (page_items s p) \<le> nat (pageSize s)"
proof (cases "1 \<le> p")
  case True
  then show ?thesis by (simp add: page_items_take_drop [OF assms])
next
  case False
  let ?n = "length (ordersArray s)"
  let ?st = "(p - 1) * pageSize s"
  from False have neg: "?st < 0" using assms by (simp add: mult_less_0_iff)
  have stop: "?st + pageSize s \<le> 0"
  proof -
    from False have "p \<le> 0" by simp
    then have "p * pageSize s \<le> 0" using assms by (simp add: mult_le_0_iff)
    then show ?thesis by (simp add: algebra_simps)
  qed
  have "slice_index ?n (?st + pageSize s) - slice_index ?n ?st \<le> nat (pageSize s)"
    using neg stop assms by (auto simp: slice_index_def max_def min_def)
  then show ?thesis
    by (simp add: page_items_def renderCurrentPage_def slice_def Let_def)
qed

lemma concat_pages:
  "0 < n \<Longrightarrow> concat (map (\<lambda>p. take n (drop (nat ((p - 1) * int n)) xs)) [1..int k]) = take (k * n) xs"
proof (induction k)
  case 0
  then show ?case by simp
next
  case (Suc k)
  let ?f = "\<lambda>p. take n (drop (nat ((p - 1) * int n)) xs)"
  have up: "[1..int (Suc k)] = [1..int k] @ [int k + 1]"
    using upto_rec2 [of 1 "int (Suc k)"] by (simp add: add.commute)
  have last: "?f (int k + 1) = take n (drop (k * n) xs)"
    by (simp add: nat_mult_distrib)
  have "concat (map ?f [1..int (Suc k)]) = concat (map ?f [1..int k]) @ ?f (int k + 1)"
    by (simp only: up map_append concat_append list.map concat.simps append_Nil2)
  also have "\<dots> = take (k * n) xs @ take n (drop (k * n) xs)"
    using Suc by (simp only: last)
  also have "\<dots> = take (k * n + n) xs"
    by (simp add: take_add)
  finally show ?case by (simp add: add.commute)
qed

subsection \<open>A run of ingests under the capacity\<close>

lemma update_fresh: "k \<notin> fst ` set m \<Longrightarrow> AList.update k v m = m @ [(k, v)]"
  by (induction m) auto

lemma addOrderToTable_fresh:
  assumes "order_id v \<notin> set (Map_keys (orders s))" "int (length (orders s)) < maxOrders s"
  shows "orders (addOrderToTable v s) = orders s @ [(order_id v, v)]"
    and "ordersArray (addOrderToTable v s) = sort_newest_first (Map_values (orders s @ [(order_id v, v)]))"
    and "selectedOrders (addOrderToTable v s) = selectedOrders s"
proof -
  have m: "Map_set (order_id v) v (orders s) = orders s @ [(order_id v, v)]"
    using assms(1) by (simp add: Map_set_def Map_keys_def update_fresh)
  let ?s2 = "s\<lparr>orders := Map_set (order_id v) v (orders s),
        ordersArray := sort_newest_first (Map_values (Map_set (order_id v) v (orders s)))\<rparr>"
  have "\<not> int (length (ordersArray ?s2)) > maxOrders ?s2"
    using assms(2) by (simp add: m sort_newest_first_def Map_values_def)
  then have "enforceMaxOrdersLimit ?s2 = ?s2" by (rule enforce_noop)
  then have "addOrderToTable v s = ?s2"
    by (simp only: ingest_eq(1))
  then show "orders (addOrderToTable v s) = orders s @ [(order_id v, v)]"
    and "ordersArray (addOrderToTable v s) = sort_newest_first (Map_values (orders s @ [(order_id v, v)]))"
    and "selectedOrders (addOrderToTable v s) = selectedOrders s"
    by (simp_all add: m)
qed

lemma handleMessage_frame:
  "maxOrders (handleMessage m s) = maxOrders s"
  "currentPage (handleMessage m s) = currentPage s"
  "pageSize (handleMessage m s) = pageSize s"
  "isConnected (handleMessage m s) = isConnected s"
  "sent (handleMessage m s) = sent s"
  "modal (handleMessage m s) = modal s"
  "timers (handleMessage m s) = timers s"
  "now (handleMessage m s) = now s"
  "ws (handleMessage m s) = ws s"
  by (cases m; simp add: handleMessage_def ingest_eq enforce_other showStatus_def)+

lemma fold_handleMessage_frame:
  "maxOrders (fold handleMessage ms s) = maxOrders s"
  "currentPage (fold handleMessage ms s) = currentPage s"
  "pageSize (fold handleMessage ms s) = pageSize s"
  "isConnected (fold handleMessage ms s) = isConnected s"
  "sent (fold handleMessage ms s) = sent s"
  by (induction ms arbitrary: s; simp add: handleMessage_frame)+

lemma sample_orders_Suc:
  "sample_orders (Suc n) = sample_orders n @ [mk_order (replicate (Suc n) CHR ''o'') ''Pending'' (int n)]"
  by (simp add: sample_orders_def)

lemma sample_ids:
  "map order_id (sample_orders n) = map (\<lambda>i. replicate (Suc i) CHR ''o'') [0..<n]"
  by (simp add: sample_orders_def mk_order_def comp_def del: replicate.simps)

lemma sample_length: "length (sample_orders n) = n"
  by (simp add: sample_orders_def)

lemma sample_run:
  "n \<le> 500 \<Longrightarrow>
   orders (fold handleMessage (map OrderItem (sample_orders n)) constructed) =
     map (\<lambda>v. (order_id v, v)) (sample_orders n)
   \<and> ordersArray (fold handleMessage (map OrderItem (sample_orders n)) constructed) =
     sort_newest_first (sample_orders n)
   \<and> selectedOrders (fold handleMessage (map OrderItem (sample_orders n)) constructed) = []"
proof (induction n)
  case 0
  then show ?case by (simp add: sample_orders_def constructed_def sort_newest_first_def)
next
  case (Suc n)
  let ?s = "fold handleMessage (map OrderItem (sample_orders n)) constructed"
  let ?v = "mk_order (replicate (Suc n) CHR ''o'') ''Pending'' (int n)"
  from Suc have IH: "orders ?s = map (\<lambda>v. (order_id v, v)) (sample_orders n)"
    "selectedOrders ?s = []" by simp_all
  have id: "order_id ?v = replicate (Suc n) CHR ''o''" by (simp add: mk_order_def)
  have "Map_keys (orders ?s) = map (\<lambda>i. replicate (Suc i) CHR ''o'') [0..<n]"
    using sample_ids [of n] by (simp add: IH Map_keys_def comp_def del: replicate.simps)
  then have fresh: "order_id ?v \<notin> set (Map_keys (orders ?s))"
    by (auto simp: id simp del: replicate.simps dest!: arg_cong [where f = length])
  have room: "int (length (orders ?s)) < maxOrders ?s"
    using Suc.prems by (simp add: IH fold_handleMessage_frame sample_length) (simp add: constructed_def)
  have step: "fold handleMessage (map OrderItem (sample_orders (Suc n))) constructed
      = addOrderToTable ?v ?s"
    by (simp add: sample_orders_Suc handleMessage_def)
  have vals: "Map_values (orders ?s @ [(order_id ?v, ?v)]) = sample_orders (Suc n)"
    by (simp add: IH Map_values_def comp_def sample_orders_Suc)
  note fr = addOrderToTable_fresh [OF fresh room]
  have "orders (addOrderToTable ?v ?s) = map (\<lambda>v. (order_id v, v)) (sample_orders (Suc n))"
    by (simp only: fr(1) IH(1) sample_orders_Suc map_append list.map)
  moreover have "ordersArray (addOrderToTable ?v ?s) = sort_newest_first (sample_orders (Suc n))"
    by (simp only: fr(2) vals)
  moreover have "selectedOrders (addOrderToTable ?v ?s) = []"
    by (simp only: fr(3) IH(2))
  ultimately show ?case by (simp only: step simp_thms)
qed

lemma sample_run_length:
  "n \<le> 500 \<Longrightarrow> length (ordersArray (fold handleMessage (map OrderItem (sample_orders n)) constructed)) = n"
  "n \<le> 500 \<Longrightarrow> length (orders (fold handleMessage (map OrderItem (sample_orders n)) constructed)) = n"
  by (simp_all add: sample_run sort_newest_first_def sample_length)

lemma keyed_constructed: "keyed (orders constructed)"
  by (simp add: keyed_def constructed_def)

lemma sample_run_in_sync:
  "n \<le> 500 \<Longrightarrow> in_sync (fold handleMessage (map OrderItem (sample_orders n)) constructed)"
proof -
  assume n: "n \<le> 500"
  let ?s = "fold handleMessage (map OrderItem (sample_orders n)) constructed"
  have "0 \<le> maxOrders constructed" by (simp add: constructed_def)
  from fold_handleMessage_inv [OF keyed_constructed this, of "map OrderItem (sample_orders n)"]
  have "keyed (orders ?s)" by simp
  moreover have "Map_values (orders ?s) = sample_orders n"
    using sample_run [OF n] by (simp add: Map_values_def comp_def)
  ultimately show ?thesis
    using sample_run [OF n] by (simp add: in_sync_def)
qed

subsection \<open>The pages partition the ordering\<close>

lemma pages_concat:
  assumes "0 < pageSize s"
  shows "concat (map (page_items s) [1..getTotalPages s]) = ordersArray s"
proof -
  let ?n = "nat (pageSize s)"
  let ?k = "nat (getTotalPages s)"
  have T: "getTotalPages s = int ?k" using total_pages_cover(2) [OF assms] by simp
  have n: "int ?n = pageSize s" using assms by simp
  have eq: "map (page_items s) [1..getTotalPages s] =
        map (\<lambda>p. take ?n (drop (nat ((p - 1) * int ?n)) (ordersArray s))) [1..getTotalPages s]"
  proof (rule map_cong [OF refl])
    fix p assume "p \<in> set [1..getTotalPages s]"
    then have "1 \<le> p" by simp
    then show "page_items s p = take ?n (drop (nat ((p - 1) * int ?n)) (ordersArray s))"
      by (simp only: n page_items_take_drop [OF assms])
  qed
  have "0 < ?n" using assms by simp
  from concat_pages [OF this, of "ordersArray s" ?k]
  have "concat (map (\<lambda>p. take ?n (drop (nat ((p - 1) * int ?n)) (ordersArray s))) [1..getTotalPages s])
      = take (?k * ?n) (ordersArray s)"
    by (simp only: T [symmetric])
  then have "concat (map (page_items s) [1..getTotalPages s]) = take (?k * ?n) (ordersArray s)"
    by (simp only: eq)
  moreover have "length (ordersArray s) \<le> ?k * ?n"
  proof -
    have "int (length (ordersArray s)) \<le> int ?k * int ?n"
      using total_pages_cover(1) [OF assms] assms T by simp
    then show ?thesis by (metis of_nat_mult of_nat_le_iff)
  qed
  ultimately show ?thesis by simp
qed

lemma total_pages_57:
  "length (ordersArray s) = 57 \<Longrightarrow> pageSize s = 25 \<Longrightarrow> getTotalPages s = 3"
  by (simp add: getTotalPages_def)

lemma page3_of_57:
  "length (ordersArray s) = 57 \<Longrightarrow> pageSize s = 25 \<Longrightarrow> length (page_items s 3) = 7"
  by (simp add: page_items_take_drop)

text \<open>
  Claim C5. For a positive page size, every page has at most \<open>pageSize\<close> rows (the rows
  of the current page are what \<open>renderCurrentPage\<close> shows), and the rows of pages 1 to
  \<open>getTotalPages\<close>, one after the other, are the newest-first ordering of the cache, each
  order once, whether or not the page size divides the number of orders. With page size 25
  and 57 orders there are 3 pages and the third has 7 rows.
\<close>

theorem pages_partition:
  assumes "in_sync s" and "0 < pageSize s"
  shows "(\<forall>p. length (page_items s p) \<le> nat (pageSize s))
       \<and> page_items s (currentPage s) = renderCurrentPage s
       \<and> concat (map (page_items s) [1..getTotalPages s]) = sort_newest_first (Map_values (orders s))
       \<and> distinct (concat (map (page_items s) [1..getTotalPages s]))
       \<and> (length (orders s) = 57 \<and> pageSize s = 25 \<longrightarrow>
            getTotalPages s = 3 \<and> length (page_items s 3) = 7)"
proof -
  have arr: "ordersArray s = sort_newest_first (Map_values (orders s))"
    using assms(1) by (simp add: in_sync_def)
  have "\<forall>p. length (page_items s p) \<le> nat (pageSize s)"
    using page_items_length [OF assms(2)] by blast
  moreover have "page_items s (currentPage s) = renderCurrentPage s"
    by (simp add: page_items_def)
  moreover have "concat (map (page_items s) [1..getTotalPages s]) = sort_newest_first (Map_values (orders s))"
    using pages_concat [OF assms(2)] arr by simp
  moreover have "distinct (concat (map (page_items s) [1..getTotalPages s]))"
    using pages_concat [OF assms(2)] in_sync_distinct [OF assms(1)] by simp
  moreover have "length (orders s) = 57 \<and> pageSize s = 25 \<longrightarrow>
            getTotalPages s = 3 \<and> length (page_items s 3) = 7"
    using total_pages_57 [of s] page3_of_57 [of s] in_sync_length [OF assms(1)] by simp
  ultimately show ?thesis by blast
qed

theorem pages_partition_witness:
  "in_sync (fold handleMessage (map OrderItem (sample_orders 57)) constructed)
   \<and> 0 < pageSize (fold handleMessage (map OrderItem (sample_orders 57)) constructed)
   \<and> length (orders (fold handleMessage (map OrderItem (sample_orders 57)) constructed)) = 57
   \<and> pageSize (fold handleMessage (map OrderItem (sample_orders 57)) constructed) = 25
   \<and> getTotalPages (fold handleMessage (map OrderItem (sample_orders 57)) constructed) = 3
   \<and> length (page_items (fold handleMessage (map OrderItem (sample_orders 57)) constructed) 3) = 7"
proof -
  let ?s = "fold handleMessage (map OrderItem (sample_orders 57)) constructed"
  have h1: "in_sync ?s" by (rule sample_run_in_sync) simp
  have p: "pageSize ?s = 25" by (simp add: fold_handleMessage_frame constructed_def)
  then have h2: "0 < pageSize ?s" by simp
  have n: "length (orders ?s) = 57" by (rule sample_run_length(2)) simp
  from pages_partition [OF h1 h2] h1 h2 n p show ?thesis by blast
qed

subsection \<open>The current page after a change of capacity\<close>

lemma updateMaxOrdersLimit_frame:
  "currentPage (updateMaxOrdersLimit inp s) = currentPage s"
  "pageSize (updateMaxOrdersLimit inp s) = pageSize s"
  by (cases inp; simp add: updateMaxOrdersLimit_def enforce_other)+

text \<open>
  Moving to a page, changing the page size and ingesting keep the current page in range;
  the last needs the cache within its capacity, so that an ingest cannot shrink it.
\<close>

lemma getTotalPages_mono:
  assumes "0 < pageSize s" "pageSize t = pageSize s" "length (ordersArray s) \<le> length (ordersArray t)"
  shows "getTotalPages s \<le> getTotalPages t"
proof -
  have "real (length (ordersArray s)) / real_of_int (pageSize s)
      \<le> real (length (ordersArray t)) / real_of_int (pageSize s)"
    using assms(1,3) by (simp add: divide_right_mono)
  then show ?thesis
    unfolding getTotalPages_def assms(2) by (rule ceiling_mono)
qed

lemma goToPage_in_range: "page_in_range s \<Longrightarrow> page_in_range (goToPage p s)"
  by (auto simp: page_in_range_def goToPage_def getTotalPages_def)

lemma pageSizeChange_in_range: "page_in_range (pageSizeChange n s)"
  by (simp add: page_in_range_def pageSizeChange_def)

lemma length_Map_set_ge: "length m \<le> length (Map_set k v m)"
  unfolding Map_set_def by (induction m) auto

lemma ingest_in_range:
  assumes "in_sync s" "0 < pageSize s" "int (length (orders s)) \<le> maxOrders s" "page_in_range s"
  shows "page_in_range (handleMessage m s)"
proof (cases "is_ingest m")
  case True
  then obtain v where m: "handleMessage m s = addOrderToTable v s"
    by (cases m) (simp_all add: is_ingest_def handleMessage_def ingest_eq(2))
  have k: "keyed (orders s)" using assms(1) by (simp add: in_sync_def)
  have cap: "0 \<le> maxOrders s" using assms(3) by linarith
  have "int (length (orders (addOrderToTable v s))) =
      min (int (length (Map_set (order_id v) v (orders s)))) (maxOrders s)"
    by (rule addOrderToTable_length [OF k cap])
  then have "int (length (orders s)) \<le> int (length (orders (addOrderToTable v s)))"
    using assms(3) length_Map_set_ge [of "orders s" "order_id v" v] by simp
  then have len: "length (ordersArray s) \<le> length (ordersArray (addOrderToTable v s))"
    using in_sync_length [OF assms(1)] in_sync_length [OF addOrderToTable_in_sync [OF k cap, of v]]
    by simp
  have ps: "pageSize (addOrderToTable v s) = pageSize s" "currentPage (addOrderToTable v s) = currentPage s"
    using handleMessage_frame(2,3) [of "OrderItem v" s] by (simp_all add: handleMessage_def)
  from getTotalPages_mono [OF assms(2) ps(1) len] assms(4)
  show ?thesis by (simp add: m page_in_range_def ps) linarith
next
  case False
  then have "ordersArray (handleMessage m s) = ordersArray s"
    by (cases m) (simp_all add: is_ingest_def handleMessage_def showStatus_def)
  with assms(4) show ?thesis
    by (simp add: page_in_range_def getTotalPages_def handleMessage_frame)
qed

text \<open>
  Claim C4 at a failing input. After 26 ingests with page size 25 and a move to page 2, the
  page is in range; lowering the capacity to 10 through \<open>updateMaxOrdersLimit\<close> leaves one
  page and the current page at 2. The page size listener resets the page and
  \<open>goToPage\<close> refuses pages out of range, but \<open>updateMaxOrdersLimit\<close> does not touch
  \<open>currentPage\<close>.
\<close>

theorem capacity_change_leaves_page:
  "page_in_range (goToPage 2 (fold handleMessage (map OrderItem (sample_orders 26)) constructed))
   \<and> currentPage (updateMaxOrdersLimit (Some (Num 10))
        (goToPage 2 (fold handleMessage (map OrderItem (sample_orders 26)) constructed))) = 2
   \<and> getTotalPages (updateMaxOrdersLimit (Some (Num 10))
        (goToPage 2 (fold handleMessage (map OrderItem (sample_orders 26)) constructed))) = 1
   \<and> \<not> page_in_range (updateMaxOrdersLimit (Some (Num 10))
        (goToPage 2 (fold handleMessage (map OrderItem (sample_orders 26)) constructed)))"
proof -
  let ?s = "fold handleMessage (map OrderItem (sample_orders 26)) constructed"
  have sync: "in_sync ?s" by (rule sample_run_in_sync) simp
  have len: "length (ordersArray ?s) = 26" by (rule sample_run_length(1)) simp
  have ps: "pageSize ?s = 25" by (simp add: fold_handleMessage_frame constructed_def)
  have tp: "getTotalPages ?s = 2" by (simp add: getTotalPages_def len ps)
  have g: "goToPage 2 ?s = ?s\<lparr>currentPage := 2\<rparr>" by (simp add: goToPage_def tp)
  have r1: "page_in_range (goToPage 2 ?s)"
    by (simp add: g page_in_range_def getTotalPages_def len ps)
  let ?t = "(?s\<lparr>currentPage := 2\<rparr>)\<lparr>maxOrders := 10\<rparr>"
  have synct: "in_sync ?t" using sync by (simp add: in_sync_def)
  have u: "updateMaxOrdersLimit (Some (Num 10)) (goToPage 2 ?s) = enforceMaxOrdersLimit ?t"
    by (simp add: g updateMaxOrdersLimit_def or_500_def)
  have arr: "ordersArray (enforceMaxOrdersLimit ?t) = take 10 (ordersArray ?s)"
    using enforce_array [OF synct] by simp
  have cp: "currentPage (enforceMaxOrdersLimit ?t) = 2" by (simp add: enforce_other)
  have tp': "getTotalPages (enforceMaxOrdersLimit ?t) = 1"
    by (simp add: getTotalPages_def arr len enforce_other ps)
  show ?thesis
    unfolding u using r1 cp tp' by (simp add: page_in_range_def g)
qed

subsection \<open>Closing one order\<close>

lemma closeOrder_sent: "sent (closeOrder orderId s) = sent s"
  by (simp add: closeOrder_def showStatus_def showConfirmationModal_def split: option.splits)

lemma closeOrder_eligible:
  "isConnected s \<Longrightarrow> is_processing s orderId \<Longrightarrow>
   closeOrder orderId s = s\<lparr>modal := Some (PerformCloseOrder orderId)\<rparr>"
  by (simp add: closeOrder_def is_processing_def showConfirmationModal_def split: option.splits)

lemma closeOrder_rejected:
  "\<not> is_processing s orderId \<Longrightarrow>
   closeOrder orderId s =
     showStatus (if \<not> isConnected s then NotConnected
                 else if Map_get (orders s) orderId = None then OrderNotFound
                 else OnlyProcessingCanBeClosed) KError s"
  by (simp add: closeOrder_def is_processing_def split: option.splits)

lemma confirm_close_one:
  "isConnected s \<Longrightarrow>
   sent (modalConfirm (s\<lparr>modal := Some (PerformCloseOrder orderId)\<rparr>)) = sent s @ [CloseOrderCmd orderId]"
  by (simp add: modalConfirm_def run_on_confirm_def hideConfirmationModal_def performCloseOrder_def
      showStatus_def ws_send_def)

lemma showStatus_fields:
  "sent (showStatus n k s) = sent s" "modal (showStatus n k s) = modal s"
  "notices (showStatus n k s) = notices s @ [(n, k)]"
  "isConnected (showStatus n k s) = isConnected s"
  "orders (showStatus n k s) = orders s"
  by (simp_all add: showStatus_def)

text \<open>
  Claim C6. \<open>closeOrder\<close> itself sends nothing. When the application is connected and the
  order is in the cache with status Processing it opens the confirmation dialog, and the
  confirmation sends one \<open>close_order\<close> for that identifier. When the order is absent or
  has another status (such as Pending) it opens no dialog and reports an error.
\<close>

theorem closeOrder_requires_processing:
  "sent (closeOrder orderId s) = sent s
   \<and> (isConnected s \<and> is_processing s orderId \<longrightarrow>
        modal (closeOrder orderId s) = Some (PerformCloseOrder orderId)
        \<and> notices (closeOrder orderId s) = notices s
        \<and> sent (modalConfirm (closeOrder orderId s)) = sent s @ [CloseOrderCmd orderId])
   \<and> (\<not> is_processing s orderId \<longrightarrow>
        modal (closeOrder orderId s) = modal s
        \<and> notices (closeOrder orderId s) = notices s @
            [(if \<not> isConnected s then NotConnected
              else if Map_get (orders s) orderId = None then OrderNotFound
              else OnlyProcessingCanBeClosed, KError)])
   \<and> (Map_get (orders s) orderId = None \<longrightarrow> \<not> is_processing s orderId)
   \<and> (\<forall>v. Map_get (orders s) orderId = Some v \<and> status v \<noteq> ''Processing''
          \<longrightarrow> \<not> is_processing s orderId)"
proof -
  have "isConnected s \<and> is_processing s orderId \<longrightarrow>
        modal (closeOrder orderId s) = Some (PerformCloseOrder orderId)
        \<and> notices (closeOrder orderId s) = notices s
        \<and> sent (modalConfirm (closeOrder orderId s)) = sent s @ [CloseOrderCmd orderId]"
    by (simp add: closeOrder_eligible confirm_close_one)
  moreover have "\<not> is_processing s orderId \<longrightarrow>
        modal (closeOrder orderId s) = modal s
        \<and> notices (closeOrder orderId s) = notices s @
            [(if \<not> isConnected s then NotConnected
              else if Map_get (orders s) orderId = None then OrderNotFound
              else OnlyProcessingCanBeClosed, KError)]"
    by (simp add: closeOrder_rejected showStatus_fields)
  moreover have "Map_get (orders s) orderId = None \<longrightarrow> \<not> is_processing s orderId"
    by (simp add: is_processing_def)
  moreover have "\<forall>v. Map_get (orders s) orderId = Some v \<and> status v \<noteq> ''Processing''
          \<longrightarrow> \<not> is_processing s orderId"
    by (simp add: is_processing_def)
  ultimately show ?thesis using closeOrder_sent [of orderId s] by blast
qed

theorem closeOrder_requires_processing_witness:
  "isConnected (fold handleMessage [OrderItem (mk_order ''A'' ''Processing'' 1),
       OrderItem (mk_order ''P'' ''Pending'' 2)] (onopen constructed))
   \<and> is_processing (fold handleMessage [OrderItem (mk_order ''A'' ''Processing'' 1),
       OrderItem (mk_order ''P'' ''Pending'' 2)] (onopen constructed)) ''A''
   \<and> sent (modalConfirm (closeOrder ''A'' (fold handleMessage
       [OrderItem (mk_order ''A'' ''Processing'' 1), OrderItem (mk_order ''P'' ''Pending'' 2)]
       (onopen constructed)))) = [CloseOrderCmd ''A'']
   \<and> Map_get (orders (fold handleMessage [OrderItem (mk_order ''A'' ''Processing'' 1),
       OrderItem (mk_order ''P'' ''Pending'' 2)] (onopen constructed))) ''P''
       = Some (mk_order ''P'' ''Pending'' 2)
   \<and> status (mk_order ''P'' ''Pending'' 2) \<noteq> ''Processing''
   \<and> \<not> is_processing (fold handleMessage [OrderItem (mk_order ''A'' ''Processing'' 1),
       OrderItem (mk_order ''P'' ''Pending'' 2)] (onopen constructed)) ''P''
   \<and> sent (closeOrder ''P'' (fold handleMessage [OrderItem (mk_order ''A'' ''Processing'' 1),
       OrderItem (mk_order ''P'' ''Pending'' 2)] (onopen constructed))) = []
   \<and> modal (closeOrder ''P'' (fold handleMessage [OrderItem (mk_order ''A'' ''Processing'' 1),
       OrderItem (mk_order ''P'' ''Pending'' 2)] (onopen constructed))) = None
   \<and> notices (closeOrder ''P'' (fold handleMessage [OrderItem (mk_order ''A'' ''Processing'' 1),
       OrderItem (mk_order ''P'' ''Pending'' 2)] (onopen constructed)))
       = [(OnlyProcessingCanBeClosed, KError)]
   \<and> Map_get (orders (fold handleMessage [OrderItem (mk_order ''A'' ''Processing'' 1),
       OrderItem (mk_order ''P'' ''Pending'' 2)] (onopen constructed))) ''Z'' = None
   \<and> notices (closeOrder ''Z'' (fold handleMessage [OrderItem (mk_order ''A'' ''Processing'' 1),
       OrderItem (mk_order ''P'' ''Pending'' 2)] (onopen constructed)))
       = [(OrderNotFound, KError)]"
proof -
  define s0 where "s0 = fold handleMessage [OrderItem (mk_order ''A'' ''Processing'' 1),
       OrderItem (mk_order ''P'' ''Pending'' 2)] (onopen constructed)"
  have s0: "s0 = constructed\<lparr>orders := [(''A'', mk_order ''A'' ''Processing'' 1),
        (''P'', mk_order ''P'' ''Pending'' 2)],
      ordersArray := [mk_order ''P'' ''Pending'' 2, mk_order ''A'' ''Processing'' 1],
      isConnected := True, connectionStatus := ''Connected''\<rparr>"
    by (simp add: s0_def handleMessage_def addOrderToTable_def enforceMaxOrdersLimit_def onopen_def
        constructed_def Map_set_def Map_values_def sort_newest_first_def mk_order_def Let_def)
  have c: "isConnected s0" by (simp add: s0 constructed_def)
  have e: "sent s0 = []" "modal s0 = None" "notices s0 = []" by (simp_all add: s0 constructed_def)
  have a: "is_processing s0 ''A''"
    by (simp add: s0 is_processing_def Map_get_def constructed_def mk_order_def)
  have p: "Map_get (orders s0) ''P'' = Some (mk_order ''P'' ''Pending'' 2)"
    by (simp add: s0 Map_get_def constructed_def)
  have st: "status (mk_order ''P'' ''Pending'' 2) \<noteq> ''Processing''"
    by (simp add: mk_order_def)
  have z: "Map_get (orders s0) ''Z'' = None"
    by (simp add: s0 Map_get_def constructed_def)
  note A = closeOrder_requires_processing [of "''A''" s0]
  note P = closeOrder_requires_processing [of "''P''" s0]
  note Z = closeOrder_requires_processing [of "''Z''" s0]
  from A c a have 1: "sent (modalConfirm (closeOrder ''A'' s0)) = [CloseOrderCmd ''A'']"
    by (simp add: e)
  from P p st have np: "\<not> is_processing s0 ''P''" by blast
  from P np have 2: "sent (closeOrder ''P'' s0) = []" "modal (closeOrder ''P'' s0) = None"
    "notices (closeOrder ''P'' s0) = [(OnlyProcessingCanBeClosed, KError)]"
    using c p by (simp_all add: e)
  from Z z have nz: "\<not> is_processing s0 ''Z''" by blast
  from Z nz have 3: "notices (closeOrder ''Z'' s0) = [(OrderNotFound, KError)]"
    using c z by (simp add: e)
  show ?thesis
    using c a 1 p st np 2 z 3 unfolding s0_def by blast
qed

subsection \<open>Processing and closing the selection\<close>

lemma fold_processOrder_sent:
  "isConnected s \<Longrightarrow>
   fold processOrder ids s = s\<lparr>sent := sent s @ map ProcessOrderCmd ids\<rparr>"
  by (induction ids arbitrary: s) (simp_all add: processOrder_def ws_send_def)

lemma fold_performCloseOrder_connected:
  "isConnected s \<Longrightarrow>
   sent (fold performCloseOrder ids s) = sent s @ map CloseOrderCmd ids
   \<and> isConnected (fold performCloseOrder ids s)"
  by (induction ids arbitrary: s) (simp_all add: performCloseOrder_def ws_send_def showStatus_def)

lemma processSelectedOrders_sent:
  "isConnected s \<Longrightarrow> sent (processSelectedOrders s) = sent s @ map ProcessOrderCmd (selectedOrders s)"
  by (simp add: processSelectedOrders_def fold_processOrder_sent showStatus_def)

lemma closeSelectedOrders_sent: "sent (closeSelectedOrders s) = sent s"
  by (simp add: closeSelectedOrders_def showStatus_def showConfirmationModal_def Let_def)

lemma closeSelectedOrders_modal:
  "isConnected s \<Longrightarrow> filter (is_processing s) (selectedOrders s) \<noteq> [] \<Longrightarrow>
   closeSelectedOrders s =
     s\<lparr>modal := Some (PerformCloseSelectedOrders (filter (is_processing s) (selectedOrders s)))\<rparr>"
  by (auto simp: closeSelectedOrders_def showConfirmationModal_def Let_def)

lemma closeSelectedOrders_none:
  "isConnected s \<Longrightarrow> selectedOrders s \<noteq> [] \<Longrightarrow> filter (is_processing s) (selectedOrders s) = [] \<Longrightarrow>
   closeSelectedOrders s = showStatus NoProcessingSelected KError s"
  by (simp add: closeSelectedOrders_def Let_def)

lemma confirm_close_many:
  "isConnected t \<Longrightarrow> modal t = Some (PerformCloseSelectedOrders ids) \<Longrightarrow>
   sent (modalConfirm t) = sent t @ map CloseOrderCmd ids"
  using fold_performCloseOrder_connected [of "hideConfirmationModal t" ids]
  by (simp add: modalConfirm_def run_on_confirm_def performCloseSelectedOrders_def Let_def
      showStatus_def hideConfirmationModal_def)

text \<open>
  When connected, \<open>processSelectedOrders\<close> sends one \<open>process_order\<close> for every
  selected identifier, in selection order, whatever the status of the order.
  \<open>closeSelectedOrders\<close> sends nothing itself; it picks the selected identifiers whose
  order has status Processing at that moment and opens the dialog with that list; the
  confirmation, when still connected, sends one \<open>close_order\<close> for every identifier of
  the list.
\<close>

lemma selected_orders_sent:
  assumes "isConnected s" and "distinct (selectedOrders s)"
  shows "sent (processSelectedOrders s) = sent s @ map ProcessOrderCmd (selectedOrders s)
       \<and> distinct (map ProcessOrderCmd (selectedOrders s))
       \<and> sent (closeSelectedOrders s) = sent s
       \<and> (filter (is_processing s) (selectedOrders s) \<noteq> [] \<longrightarrow>
            modal (closeSelectedOrders s) =
              Some (PerformCloseSelectedOrders (filter (is_processing s) (selectedOrders s))))
       \<and> (filter (is_processing s) (selectedOrders s) = [] \<longrightarrow>
            modal (closeSelectedOrders s) = modal s)
       \<and> (\<forall>t ids. isConnected t \<and> modal t = Some (PerformCloseSelectedOrders ids) \<longrightarrow>
            sent (modalConfirm t) = sent t @ map CloseOrderCmd ids)
       \<and> distinct (map CloseOrderCmd (filter (is_processing s) (selectedOrders s)))"
proof -
  have "filter (is_processing s) (selectedOrders s) = [] \<longrightarrow>
            modal (closeSelectedOrders s) = modal s"
    by (simp add: closeSelectedOrders_def showStatus_def Let_def)
  moreover have "filter (is_processing s) (selectedOrders s) \<noteq> [] \<longrightarrow>
            modal (closeSelectedOrders s) =
              Some (PerformCloseSelectedOrders (filter (is_processing s) (selectedOrders s)))"
    using assms(1) by (simp add: closeSelectedOrders_modal)
  moreover have "distinct (map ProcessOrderCmd (selectedOrders s))"
    "distinct (map CloseOrderCmd (filter (is_processing s) (selectedOrders s)))"
    using assms(2) by (simp_all add: distinct_map inj_on_def)
  ultimately show ?thesis
    using processSelectedOrders_sent [OF assms(1)] closeSelectedOrders_sent [of s] confirm_close_many
    by blast
qed

text \<open>
  Claim C7 at a failing input. The socket opens, a Processing order \<open>A\<close> and a Pending
  order \<open>P\<close> arrive, and the operator clicks both rows. The Process Selected button is
  enabled and counts one order, the Pending one, which is the rule of eligibility
  \<open>updateProcessSelectedButton\<close> applies and the one \<open>closeSelectedOrders\<close> applies to
  closing; a click on the button sends \<open>process_order\<close> for \<open>A\<close> as well.
\<close>

theorem process_selected_reaches_processing:
  "selectedOrders (app_of (fold handle [Open, Frame (OrderItem (mk_order ''A'' ''Processing'' 1)),
        Frame (OrderItem (mk_order ''P'' ''Pending'' 2)), Toggle ''A'', Toggle ''P''] loaded))
     = [''A'', ''P'']
   \<and> Map_get (orders (app_of (fold handle [Open, Frame (OrderItem (mk_order ''A'' ''Processing'' 1)),
        Frame (OrderItem (mk_order ''P'' ''Pending'' 2)), Toggle ''A'', Toggle ''P''] loaded))) ''A''
     = Some (mk_order ''A'' ''Processing'' 1)
   \<and> selectedPendingOrders (app_of (fold handle [Open,
        Frame (OrderItem (mk_order ''A'' ''Processing'' 1)),
        Frame (OrderItem (mk_order ''P'' ''Pending'' 2)), Toggle ''A'', Toggle ''P''] loaded))
     = [''P'']
   \<and> \<not> processSelectedBtn_disabled (app_of (fold handle [Open,
        Frame (OrderItem (mk_order ''A'' ''Processing'' 1)),
        Frame (OrderItem (mk_order ''P'' ''Pending'' 2)), Toggle ''A'', Toggle ''P''] loaded))
   \<and> sent (app_of (fold handle [Open, Frame (OrderItem (mk_order ''A'' ''Processing'' 1)),
        Frame (OrderItem (mk_order ''P'' ''Pending'' 2)), Toggle ''A'', Toggle ''P'',
        ProcessSelected] loaded))
     = [ProcessOrderCmd ''A'', ProcessOrderCmd ''P'']"
proof -
  define s0 where "s0 = app_of (fold handle [Open, Frame (OrderItem (mk_order ''A'' ''Processing'' 1)),
        Frame (OrderItem (mk_order ''P'' ''Pending'' 2)), Toggle ''A'', Toggle ''P''] loaded)"
  have s0: "s0 = constructed\<lparr>ws := Some 0,
      orders := [(''A'', mk_order ''A'' ''Processing'' 1), (''P'', mk_order ''P'' ''Pending'' 2)],
      ordersArray := [mk_order ''P'' ''Pending'' 2, mk_order ''A'' ''Processing'' 1],
      selectedOrders := [''A'', ''P''],
      isConnected := True, connectionStatus := ''Connected''\<rparr>"
    by (simp add: s0_def handle_def clickable_def renders_def loaded_def init_def connectWebSocket_def
        onopen_def onmessage_def handleMessage_def addOrderToTable_def enforceMaxOrdersLimit_def
        constructed_def Map_set_def Map_values_def sort_newest_first_def mk_order_def Let_def
        toggleOrderSelection_def Set_has_def Set_add_def is_ingest_def renderCurrentPage_def
        slice_def slice_index_def)
  have run: "app_of (fold handle [Open, Frame (OrderItem (mk_order ''A'' ''Processing'' 1)),
        Frame (OrderItem (mk_order ''P'' ''Pending'' 2)), Toggle ''A'', Toggle ''P'',
        ProcessSelected] loaded) = processSelectedOrders s0"
    by (simp add: s0_def handle_def clickable_def Let_def)
  have 1: "selectedOrders s0 = [''A'', ''P'']" by (simp add: s0 constructed_def)
  have 2: "Map_get (orders s0) ''A'' = Some (mk_order ''A'' ''Processing'' 1)"
    by (simp add: s0 Map_get_def constructed_def)
  have 3: "selectedPendingOrders s0 = [''P'']"
    by (simp add: s0 selectedPendingOrders_def Map_get_def constructed_def mk_order_def)
  have 4: "\<not> processSelectedBtn_disabled s0"
    by (simp add: processSelectedBtn_disabled_def 3)
  have 5: "sent (processSelectedOrders s0) = [ProcessOrderCmd ''A'', ProcessOrderCmd ''P'']"
    by (simp add: s0 processSelectedOrders_def processOrder_def showStatus_def ws_send_def
        constructed_def)
  show ?thesis
    unfolding run using 1 2 3 4 5 unfolding s0_def by blast
qed

subsection \<open>The capacity field\<close>

text \<open>
  Claim C8 at a failing input. \<open>parseInt(v) || 500\<close> replaces \<open>NaN\<close> and \<open>0\<close> by 500
  and keeps every other number: a field holding \<open>-5\<close> sets the capacity to \<open>-5\<close>, after
  which every ingest is evicted at once and the cache stays empty.
\<close>

theorem negative_capacity_kept:
  "maxOrders (updateMaxOrdersLimit (Some (Num (- 5))) constructed) = - 5
   \<and> orders (handleMessage (OrderItem (mk_order ''A'' ''Pending'' 1))
        (updateMaxOrdersLimit (Some (Num (- 5))) constructed)) = []
   \<and> maxOrders (updateMaxOrdersLimit (Some NaN) s) = 500
   \<and> maxOrders (updateMaxOrdersLimit (Some (Num 0)) s) = 500
   \<and> maxOrders (updateMaxOrdersLimit (Some (Num 7)) s) = 7"
proof -
  have "maxOrders (updateMaxOrdersLimit (Some (Num (- 5))) constructed) = - 5"
    by (simp add: updateMaxOrdersLimit_def or_500_def enforce_other)
  moreover have "orders (handleMessage (OrderItem (mk_order ''A'' ''Pending'' 1))
        (updateMaxOrdersLimit (Some (Num (- 5))) constructed)) = []"
    by (simp add: handleMessage_def addOrderToTable_def updateMaxOrdersLimit_def or_500_def
      constructed_def enforceMaxOrdersLimit_def oldestOrders_def slice_from_def slice_index_def
      sort_newest_first_def Map_values_def Map_set_def Map_delete_def Set_delete_def
      remove_order_def Let_def mk_order_def)
  moreover have "maxOrders (updateMaxOrdersLimit (Some NaN) s) = 500"
    "maxOrders (updateMaxOrdersLimit (Some (Num 0)) s) = 500"
    "maxOrders (updateMaxOrdersLimit (Some (Num 7)) s) = 7"
    by (simp_all add: updateMaxOrdersLimit_def or_500_def enforce_other)
  ultimately show ?thesis by blast
qed

subsection \<open>Reconnection\<close>

lemma onclose_fields:
  "isConnected (onclose s) = False" "timers (onclose s) = timers s @ [now s + 3000]"
  "ws (onclose s) = ws s" "now (onclose s) = now s"
  by (simp_all add: onclose_def Let_def)

lemma timer_not_due:
  assumes "timers s = []" "d < 3000"
  shows "run_timer (elapse d (onclose s)) = elapse d (onclose s)"
  using assms by (simp add: run_timer_def elapse_def onclose_def Let_def)

lemma timer_due:
  assumes "timers s = []" "3000 \<le> d"
  shows "run_timer (elapse d (onclose s)) = connectWebSocket ((elapse d (onclose s))\<lparr>timers := []\<rparr>)"
  using assms by (simp add: run_timer_def elapse_def onclose_def Let_def reconnect_timeout_def)

lemma timer_once:
  assumes "timers s = []" "3000 \<le> d"
  shows "run_timer (run_timer (elapse d (onclose s))) = run_timer (elapse d (onclose s))"
  using assms by (simp add: timer_due) (simp add: run_timer_def connectWebSocket_def)

lemma timer_after_open:
  assumes "timers s = []" "3000 \<le> d"
  shows "run_timer (elapse d (onopen (onclose s))) = (elapse d (onopen (onclose s)))\<lparr>timers := []\<rparr>"
  using assms
  by (simp add: run_timer_def elapse_def onclose_def onopen_def Let_def reconnect_timeout_def)

lemma fold_processOrder_timers: "timers (fold processOrder ids s) = timers s"
  by (induction ids arbitrary: s) (simp_all add: processOrder_def showStatus_def ws_send_def)

lemma fold_performCloseOrder_timers: "timers (fold performCloseOrder ids s) = timers s"
  by (induction ids arbitrary: s) (simp_all add: performCloseOrder_def showStatus_def ws_send_def)

lemma timers_kept:
  "a \<noteq> TimerDue \<Longrightarrow> take (length (timers s)) (timers (perform a s)) = timers s"
proof (cases a)
  case (Frame m)
  then show ?thesis by (simp add: onmessage_def handleMessage_frame)
next
  case (MaxOrders inp)
  then show ?thesis by (cases inp) (simp_all add: updateMaxOrdersLimit_def enforce_other)
next
  case Confirm
  then show ?thesis
    by (simp add: modalConfirm_def run_on_confirm_def hideConfirmationModal_def
        performCloseOrder_def performCloseSelectedOrders_def showStatus_def ws_send_def Let_def
        fold_performCloseOrder_timers split: option.splits on_confirm.splits)
next
  case TimerDue
  assume "a \<noteq> TimerDue"
  with TimerDue show ?thesis by simp
qed (simp_all add: onopen_def onclose_def onerror_def elapse_def toggleOrderSelection_def
    deselectAllOrders_def processOrder_def closeOrder_def processSelectedOrders_def
    closeSelectedOrders_def modalCancel_def hideConfirmationModal_def showConfirmationModal_def
    showStatus_def ws_send_def goToPage_def pageSizeChange_def Let_def fold_processOrder_timers
    split: option.splits)

lemma disconnect_fields:
  "isConnected (disconnect e s) = False"
  "timers (disconnect e s) = timers s @ [now s + 3000]"
  "ws (disconnect e s) = ws s"
  "now (disconnect e s) = now s"
  by (cases e; simp add: disconnect_def onclose_def onerror_def Let_def)+

lemma onerror_alone:
  "isConnected (onerror s) = isConnected s" "timers (onerror s) = timers s"
  by (simp_all add: onerror_def)

lemma timer_waits:
  assumes "timers s = []" "d < 3000"
  shows "run_timer (elapse d (disconnect e s)) = elapse d (disconnect e s)"
  using assms by (cases e) (simp_all add: run_timer_def elapse_def disconnect_def onclose_def onerror_def Let_def)

lemma timer_fires:
  assumes "timers s = []" "3000 \<le> d"
  shows "run_timer (elapse d (disconnect e s)) = connectWebSocket ((elapse d (disconnect e s))\<lparr>timers := []\<rparr>)"
  using assms
  by (cases e) (simp_all add: run_timer_def elapse_def disconnect_def onclose_def onerror_def Let_def
      reconnect_timeout_def)

lemma timer_fires_once:
  assumes "timers s = []" "3000 \<le> d"
  shows "run_timer (run_timer (elapse d (disconnect e s))) = run_timer (elapse d (disconnect e s))"
  using assms by (simp add: timer_fires) (simp add: run_timer_def connectWebSocket_def)

lemma timer_new_socket:
  assumes "timers s = []" "3000 \<le> d"
  shows "ws (run_timer (elapse d (disconnect e s))) = Some (case ws s of None \<Rightarrow> 0 | Some n \<Rightarrow> Suc n)"
  using assms by (simp add: timer_fires) (simp add: connectWebSocket_def elapse_def disconnect_fields)

lemma timer_after_reopen:
  assumes "timers s = []" "3000 \<le> d"
  shows "run_timer (elapse d (onopen (disconnect e s))) = (elapse d (onopen (disconnect e s)))\<lparr>timers := []\<rparr>"
  using assms
  by (cases e) (simp_all add: run_timer_def elapse_def disconnect_def onclose_def onerror_def onopen_def
      Let_def reconnect_timeout_def)

text \<open>
  Claim C9. The connection becomes disconnected when the runtime ends the transport: it
  delivers a close event, preceded by an error event when the transport failed. In both
  cases the application is disconnected afterwards and exactly one timer, due 3000 ms
  later, has been requested, whatever the state; the error handler alone does neither.
  With no other timer pending, nothing happens before the 3000 ms are over; once they are,
  the callback runs once: it constructs a new socket if the application is not connected,
  does nothing if a socket has opened in the meantime, and the timer is gone. No other
  entry point removes a pending timer.
\<close>

theorem reconnect_after_disconnect:
  "isConnected (disconnect e s) = False
   \<and> timers (disconnect e s) = timers s @ [now s + 3000]
   \<and> ws (disconnect e s) = ws s
   \<and> disconnect Closed s = onclose s
   \<and> disconnect Failed s = onclose (onerror s)
   \<and> isConnected (onerror s) = isConnected s
   \<and> timers (onerror s) = timers s
   \<and> (timers s = [] \<and> d < 3000 \<longrightarrow>
        run_timer (elapse d (disconnect e s)) = elapse d (disconnect e s))
   \<and> (timers s = [] \<and> 3000 \<le> d \<longrightarrow>
        run_timer (elapse d (disconnect e s))
          = connectWebSocket ((elapse d (disconnect e s))\<lparr>timers := []\<rparr>)
        \<and> ws (run_timer (elapse d (disconnect e s)))
          = Some (case ws s of None \<Rightarrow> 0 | Some n \<Rightarrow> Suc n)
        \<and> run_timer (run_timer (elapse d (disconnect e s))) = run_timer (elapse d (disconnect e s))
        \<and> run_timer (elapse d (onopen (disconnect e s)))
          = (elapse d (onopen (disconnect e s)))\<lparr>timers := []\<rparr>)
   \<and> (a \<noteq> TimerDue \<longrightarrow> take (length (timers s)) (timers (perform a s)) = timers s)"
proof -
  have "disconnect Closed s = onclose s" "disconnect Failed s = onclose (onerror s)"
    by (simp_all add: disconnect_def)
  then show ?thesis
    using disconnect_fields(1,2,3) [of e s] onerror_alone [of s] timer_waits [of s d e]
      timer_fires [of s d e] timer_fires_once [of s d e] timer_new_socket [of s d e]
      timer_after_reopen [of s d e] timers_kept [of a s]
    by (intro conjI impI) (simp_all only: simp_thms)
qed

theorem reconnect_after_disconnect_witness:
  "timers (onopen (init constructed)) = [] \<and> (2999::nat) < 3000 \<and> (3000::nat) \<le> 3000
   \<and> Frame (StatusMsg ''x'') \<noteq> TimerDue
   \<and> isConnected (onopen (init constructed))
   \<and> isConnected (disconnect Failed (onopen (init constructed))) = False
   \<and> timers (disconnect Failed (onopen (init constructed))) = [3000]
   \<and> run_timer (elapse 2999 (disconnect Failed (onopen (init constructed))))
       = elapse 2999 (disconnect Failed (onopen (init constructed)))
   \<and> ws (run_timer (elapse 3000 (disconnect Failed (onopen (init constructed))))) = Some (Suc 0)
   \<and> ws (run_timer (elapse 3000 (disconnect Closed (onopen (init constructed))))) = Some (Suc 0)
   \<and> run_timer (run_timer (elapse 3000 (disconnect Closed (onopen (init constructed)))))
       = run_timer (elapse 3000 (disconnect Closed (onopen (init constructed))))
   \<and> take (length (timers (onopen (init constructed))))
        (timers (perform (Frame (StatusMsg ''x'')) (onopen (init constructed))))
       = timers (onopen (init constructed))"
proof -
  define s0 where "s0 = onopen (init constructed)"
  have t: "timers s0 = []"
    by (simp add: s0_def onopen_def init_def connectWebSocket_def constructed_def)
  have n: "now s0 = 0"
    by (simp add: s0_def onopen_def init_def connectWebSocket_def constructed_def)
  have w: "ws s0 = Some 0"
    by (simp add: s0_def onopen_def init_def connectWebSocket_def constructed_def)
  have c: "isConnected s0" by (simp add: s0_def onopen_def)
  have a: "Frame (StatusMsg ''x'') \<noteq> TimerDue" by simp
  have e: "(2999::nat) < 3000" and d: "(3000::nat) \<le> 3000" by simp_all
  note fe = reconnect_after_disconnect [of Failed s0 2999 "Frame (StatusMsg ''x'')"]
  note fd = reconnect_after_disconnect [of Failed s0 3000 "Frame (StatusMsg ''x'')"]
  note cd = reconnect_after_disconnect [of Closed s0 3000 "Frame (StatusMsg ''x'')"]
  from fe have 1: "isConnected (disconnect Failed s0) = False" by blast
  from fe have "timers (disconnect Failed s0) = timers s0 @ [now s0 + 3000]" by blast
  then have 2: "timers (disconnect Failed s0) = [3000]" by (simp add: t n)
  from fe t e have 3: "run_timer (elapse 2999 (disconnect Failed s0)) = elapse 2999 (disconnect Failed s0)"
    by blast
  from fd t d have "ws (run_timer (elapse 3000 (disconnect Failed s0)))
      = Some (case ws s0 of None \<Rightarrow> 0 | Some n \<Rightarrow> Suc n)" by blast
  then have 4: "ws (run_timer (elapse 3000 (disconnect Failed s0))) = Some (Suc 0)" by (simp add: w)
  from cd t d have "ws (run_timer (elapse 3000 (disconnect Closed s0)))
      = Some (case ws s0 of None \<Rightarrow> 0 | Some n \<Rightarrow> Suc n)" by blast
  then have 5: "ws (run_timer (elapse 3000 (disconnect Closed s0))) = Some (Suc 0)" by (simp add: w)
  from cd t d have 6: "run_timer (run_timer (elapse 3000 (disconnect Closed s0)))
      = run_timer (elapse 3000 (disconnect Closed s0))" by blast
  from cd a have 7: "take (length (timers s0)) (timers (perform (Frame (StatusMsg ''x'')) s0)) = timers s0"
    by blast
  show ?thesis using t e d a c 1 2 3 4 5 6 7 unfolding s0_def by blast
qed

subsection \<open>The life of a record\<close>

lemma ingest_same: "handleMessage (OrderUpdated v) s = handleMessage (OrderItem v) s"
  by (simp add: handleMessage_def ingest_eq(2))

lemma enforce_keys_subset:
  "set (Map_keys (orders (enforceMaxOrdersLimit s))) \<subseteq> set (Map_keys (orders s))"
  by (auto simp: Map_keys_def enforce_orders_any)

lemma ingest_keys_subset:
  "set (Map_keys (orders (handleMessage (OrderItem v) s))) \<subseteq> insert (order_id v) (set (Map_keys (orders s)))"
proof -
  have "set (Map_keys (Map_set (order_id v) v (orders s))) = insert (order_id v) (set (Map_keys (orders s)))"
    by (simp add: Map_keys_def Map_set_def AList.dom_update)
  then show ?thesis
    using enforce_keys_subset [of "s\<lparr>orders := Map_set (order_id v) v (orders s),
        ordersArray := sort_newest_first (Map_values (Map_set (order_id v) v (orders s)))\<rparr>"]
    by (simp add: handleMessage_def ingest_eq(1))
qed

lemma ingest_no_eviction:
  assumes "\<not> maxOrders s < int (length (Map_set (order_id v) v (orders s)))"
  shows "orders (handleMessage (OrderItem v) s) = Map_set (order_id v) v (orders s)"
proof -
  let ?s2 = "s\<lparr>orders := Map_set (order_id v) v (orders s),
        ordersArray := sort_newest_first (Map_values (Map_set (order_id v) v (orders s)))\<rparr>"
  have "\<not> int (length (ordersArray ?s2)) > maxOrders ?s2"
    using assms by (simp add: sort_newest_first_def Map_values_def)
  then have "enforceMaxOrdersLimit ?s2 = ?s2" by (rule enforce_noop)
  then show ?thesis by (simp add: handleMessage_def ingest_eq(1))
qed

lemma length_Map_set_present:
  "k \<in> set (Map_keys m) \<Longrightarrow> length (Map_set k v m) = length m"
  using arg_cong [OF AList.update_keys [of k v m], of length]
  by (simp add: Map_set_def Map_keys_def)

lemma ingest_in_place:
  assumes "order_id v \<in> set (Map_keys (orders s))" "int (length (orders s)) \<le> maxOrders s"
  shows "Map_keys (orders (handleMessage (OrderItem v) s)) = Map_keys (orders s)"
    and "Map_get (orders (handleMessage (OrderItem v) s)) (order_id v) = Some v"
    and "k \<noteq> order_id v \<Longrightarrow> Map_get (orders (handleMessage (OrderItem v) s)) k = Map_get (orders s) k"
proof -
  have "\<not> maxOrders s < int (length (Map_set (order_id v) v (orders s)))"
    using assms by (simp add: length_Map_set_present)
  then have o: "orders (handleMessage (OrderItem v) s) = Map_set (order_id v) v (orders s)"
    by (rule ingest_no_eviction)
  show "Map_keys (orders (handleMessage (OrderItem v) s)) = Map_keys (orders s)"
    using assms(1) by (simp add: o Map_keys_def Map_set_def AList.update_keys)
  show "Map_get (orders (handleMessage (OrderItem v) s)) (order_id v) = Some v"
    by (simp add: o Map_get_def Map_set_def AList.update_conv')
  show "k \<noteq> order_id v \<Longrightarrow> Map_get (orders (handleMessage (OrderItem v) s)) k = Map_get (orders s) k"
    by (simp add: o Map_get_def Map_set_def AList.update_conv')
qed

lemma ingest_created:
  assumes "order_id v \<notin> set (Map_keys (orders s))" "int (length (orders s)) < maxOrders s"
  shows "orders (handleMessage (OrderItem v) s) = orders s @ [(order_id v, v)]"
  using addOrderToTable_fresh(1) [OF assms] by (simp add: handleMessage_def)

lemma removal_is_eviction:
  assumes "k \<in> set (Map_keys (orders s))" "k \<notin> set (Map_keys (orders (handleMessage (OrderItem v) s)))"
  shows "maxOrders s < int (length (Map_set (order_id v) v (orders s)))"
proof (rule ccontr)
  assume "\<not> maxOrders s < int (length (Map_set (order_id v) v (orders s)))"
  then have "orders (handleMessage (OrderItem v) s) = Map_set (order_id v) v (orders s)"
    by (rule ingest_no_eviction)
  then have "set (Map_keys (orders (handleMessage (OrderItem v) s))) = insert (order_id v) (set (Map_keys (orders s)))"
    by (simp add: Map_keys_def Map_set_def AList.dom_update)
  with assms show False by simp
qed

lemma capacity_keys_subset:
  "set (Map_keys (orders (updateMaxOrdersLimit inp s))) \<subseteq> set (Map_keys (orders s))"
proof (cases inp)
  case None
  then show ?thesis by (simp add: updateMaxOrdersLimit_def)
next
  case (Some n)
  then show ?thesis
    using enforce_keys_subset [of "s\<lparr>maxOrders := or_500 n\<rparr>"] by (simp add: updateMaxOrdersLimit_def)
qed

lemma other_actions_keep_orders:
  "\<not> changes_cache a \<Longrightarrow> orders (perform a s) = orders s"
proof (cases a)
  case (Frame m)
  assume "\<not> changes_cache a"
  with Frame show ?thesis
    by (cases m) (simp_all add: changes_cache_def is_ingest_def onmessage_def handleMessage_def showStatus_def)
next
  case (MaxOrders inp)
  assume "\<not> changes_cache a"
  with MaxOrders show ?thesis by (simp add: changes_cache_def)
qed (simp_all add: commands_orders connection_orders paging_orders modalConfirm_orders
    toggleOrderSelection_def deselectAllOrders_def showStatus_def)

lemma keyed_pairs_filter:
  assumes "keyed m" "set es \<subseteq> set (map snd m)"
  shows "filter (\<lambda>(k, v). k \<notin> order_id ` set es) m = filter (\<lambda>(k, v). v \<notin> set es) m"
proof -
  have inj: "inj_on order_id (set (map snd m))" by (rule keyed_inj [OF assms(1)])
  have kv: "\<And>k v. (k, v) \<in> set m \<Longrightarrow> k = order_id v"
    using assms(1) unfolding keyed_def by (auto simp: list_all_iff)
  have "\<And>k v. (k, v) \<in> set m \<Longrightarrow> (k \<notin> order_id ` set es) = (v \<notin> set es)"
  proof -
    fix k v assume m: "(k, v) \<in> set m"
    then have v: "v \<in> set (map snd m)" by force
    show "(k \<notin> order_id ` set es) = (v \<notin> set es)"
      using kv [OF m] inj v assms(2) by (auto dest: inj_onD)
  qed
  then show ?thesis by (intro filter_cong) auto
qed

lemma notin_drop_iff_take:
  "distinct xs \<Longrightarrow> v \<in> set xs \<Longrightarrow> (v \<notin> set (drop n xs)) = (v \<in> set (take n xs))"
proof -
  assume d: "distinct xs" and v: "v \<in> set xs"
  have "set (take n xs) \<inter> set (drop n xs) = {}"
    using d by (metis append_take_drop_id distinct_append)
  moreover have "set xs = set (take n xs) \<union> set (drop n xs)"
    by (metis append_take_drop_id set_append)
  ultimately show ?thesis using v by blast
qed

lemma enforce_keeps_newest:
  assumes "in_sync s" "0 \<le> maxOrders s"
  shows "orders (enforceMaxOrdersLimit s) =
         filter (\<lambda>(k, w). w \<in> set (take (nat (maxOrders s)) (ordersArray s))) (orders s)"
proof -
  let ?n = "nat (maxOrders s)"
  have k: "keyed (orders s)" using assms(1) by (simp add: in_sync_def)
  have sub: "set (drop ?n (ordersArray s)) \<subseteq> set (map snd (orders s))"
    using in_sync_set [OF assms(1)] set_drop_subset [of ?n "ordersArray s"]
    by (simp add: Map_values_def)
  have "orders (enforceMaxOrdersLimit s) =
      filter (\<lambda>(k, w). w \<notin> set (drop ?n (ordersArray s))) (orders s)"
    by (simp only: enforce_orders [OF assms] keyed_pairs_filter [OF k sub])
  also have "\<dots> = filter (\<lambda>(k, w). w \<in> set (take ?n (ordersArray s))) (orders s)"
  proof (rule filter_cong [OF refl])
    fix p assume "p \<in> set (orders s)"
    then have "snd p \<in> set (ordersArray s)"
      using in_sync_set [OF assms(1)] by (simp add: Map_values_def)
    from notin_drop_iff_take [OF in_sync_distinct [OF assms(1)] this, of ?n]
    show "(case p of (k, w) \<Rightarrow> w \<notin> set (drop ?n (ordersArray s)))
        = (case p of (k, w) \<Rightarrow> w \<in> set (take ?n (ordersArray s)))"
      by (simp add: case_prod_unfold)
  qed
  finally show ?thesis .
qed

lemma ingest_result:
  assumes "keyed (orders s)" "0 \<le> maxOrders s"
  shows "orders (handleMessage (OrderItem v) s) =
         filter (\<lambda>(k, w). w \<in> set (take (nat (maxOrders s))
                   (sort_newest_first (Map_values (Map_set (order_id v) v (orders s))))))
           (Map_set (order_id v) v (orders s))"
  using enforce_keeps_newest [OF stored_in_sync [OF assms(1), of v]] assms(2)
  by (simp add: handleMessage_def ingest_eq(1))

lemma capacity_result:
  assumes "in_sync s" "0 \<le> or_500 n"
  shows "orders (updateMaxOrdersLimit (Some n) s) =
         filter (\<lambda>(k, w). w \<in> set (take (nat (or_500 n)) (ordersArray s))) (orders s)"
proof -
  have "in_sync (s\<lparr>maxOrders := or_500 n\<rparr>)" using assms(1) by (simp add: in_sync_def)
  from enforce_keeps_newest [OF this] assms(2) show ?thesis
    by (simp add: updateMaxOrdersLimit_def)
qed

lemma map_of_filter_distinct:
  "distinct (map fst m) \<Longrightarrow>
   map_of (filter P m) k = (case map_of m k of None \<Rightarrow> None
      | Some w \<Rightarrow> if P (k, w) then Some w else None)"
proof (induction m)
  case Nil
  then show ?case by simp
next
  case (Cons p m)
  obtain k' w' where p: "p = (k', w')" by (cases p)
  from Cons.prems have d: "distinct (map fst m)" and fresh: "k' \<notin> fst ` set m" by (simp_all add: p)
  show ?case
  proof (cases "k = k'")
    case True
    with fresh have "map_of m k = None" by (simp add: map_of_eq_None_iff)
    then have "map_of (filter P m) k = None" using Cons.IH [OF d] by simp
    then show ?thesis using True by (simp add: p)
  next
    case False
    then show ?thesis using Cons.IH [OF d] by (simp add: p)
  qed
qed

lemma stored_after_ingest:
  assumes "keyed (orders s)" "0 \<le> maxOrders s"
  shows "Map_get (orders (handleMessage (OrderItem v) s)) (order_id v) =
         (if v \<in> set (take (nat (maxOrders s))
                 (sort_newest_first (Map_values (Map_set (order_id v) v (orders s)))))
          then Some v else None)"
proof -
  have k: "keyed (Map_set (order_id v) v (orders s))" by (rule keyed_Map_set [OF assms(1)])
  then have d: "distinct (map fst (Map_set (order_id v) v (orders s)))" by (simp add: keyed_def)
  have g: "map_of (Map_set (order_id v) v (orders s)) (order_id v) = Some v"
    by (simp add: Map_set_def AList.update_conv')
  show ?thesis
    unfolding Map_get_def ingest_result [OF assms] map_of_filter_distinct [OF d] g by simp
qed

lemma Map_set_new:
  "order_id v \<notin> set (Map_keys (orders s)) \<Longrightarrow>
   Map_set (order_id v) v (orders s) = orders s @ [(order_id v, v)]"
  by (simp add: Map_set_def Map_keys_def update_fresh)

lemma Map_set_old:
  assumes "order_id v \<in> set (Map_keys (orders s))"
  shows "Map_keys (Map_set (order_id v) v (orders s)) = Map_keys (orders s)"
    and "Map_get (Map_set (order_id v) v (orders s)) (order_id v) = Some v"
    and "k \<noteq> order_id v \<Longrightarrow> Map_get (Map_set (order_id v) v (orders s)) k = Map_get (orders s) k"
  using assms by (simp_all add: Map_keys_def Map_set_def Map_get_def AList.update_keys AList.update_conv')

text \<open>
  Claim C10, as the code has it, for a capacity that is not negative. \<open>order_item\<close> and
  \<open>order_updated\<close> frames do the same: the order is stored under its identifier, appended
  when the cache does not hold the identifier and replacing the record at its place, all
  others untouched, when it does; then the cache keeps exactly the entries among the first
  \<open>maxOrders\<close> of the newest-first ordering (a rearrangement of the values in which no
  entry kept is older than an entry removed), so that at a full cache a new record pushes
  out the oldest one or is itself the one removed. A change of capacity keeps exactly the
  entries among the first \<open>maxOrders\<close> of the ordering. No other entry point changes the
  cache, so a key disappears only by such an eviction.
\<close>

theorem record_lifecycle:
  assumes "keyed (orders s)" and "0 \<le> maxOrders s"
  shows "handleMessage (OrderUpdated v) s = handleMessage (OrderItem v) s
   \<and> orders (handleMessage (OrderItem v) s) =
        filter (\<lambda>(k, w). w \<in> set (take (nat (maxOrders s))
                  (sort_newest_first (Map_values (Map_set (order_id v) v (orders s))))))
          (Map_set (order_id v) v (orders s))
   \<and> Map_get (orders (handleMessage (OrderItem v) s)) (order_id v) =
        (if v \<in> set (take (nat (maxOrders s))
                (sort_newest_first (Map_values (Map_set (order_id v) v (orders s)))))
         then Some v else None)
   \<and> (order_id v \<notin> set (Map_keys (orders s)) \<longrightarrow>
        Map_set (order_id v) v (orders s) = orders s @ [(order_id v, v)])
   \<and> (order_id v \<in> set (Map_keys (orders s)) \<longrightarrow>
        Map_keys (Map_set (order_id v) v (orders s)) = Map_keys (orders s)
        \<and> Map_get (Map_set (order_id v) v (orders s)) (order_id v) = Some v
        \<and> (\<forall>k. k \<noteq> order_id v \<longrightarrow>
             Map_get (Map_set (order_id v) v (orders s)) k = Map_get (orders s) k))
   \<and> (order_id v \<notin> set (Map_keys (orders s)) \<and> int (length (orders s)) < maxOrders s \<longrightarrow>
        orders (handleMessage (OrderItem v) s) = orders s @ [(order_id v, v)])
   \<and> (order_id v \<in> set (Map_keys (orders s)) \<and> int (length (orders s)) \<le> maxOrders s \<longrightarrow>
        orders (handleMessage (OrderItem v) s) = Map_set (order_id v) v (orders s))
   \<and> (\<forall>k. k \<in> set (Map_keys (orders s))
          \<and> k \<notin> set (Map_keys (orders (handleMessage (OrderItem v) s))) \<longrightarrow>
        maxOrders s < int (length (Map_set (order_id v) v (orders s))))
   \<and> (in_sync s \<and> 0 \<le> or_500 n \<longrightarrow>
        orders (updateMaxOrdersLimit (Some n) s) =
          filter (\<lambda>(k, w). w \<in> set (take (nat (or_500 n)) (ordersArray s))) (orders s))
   \<and> orders (updateMaxOrdersLimit None s) = orders s
   \<and> (\<not> changes_cache a \<longrightarrow> orders (perform a s) = orders s)
   \<and> (\<forall>r \<in> set (take i (sort_newest_first vs)).
        \<forall>e \<in> set (drop i (sort_newest_first vs)). timestamp e \<le> timestamp r)
   \<and> set (sort_newest_first vs) = set vs
   \<and> length (sort_newest_first vs) = length vs"
proof -
  have newest: "\<forall>r \<in> set (take i (sort_newest_first vs)).
        \<forall>e \<in> set (drop i (sort_newest_first vs)). timestamp e \<le> timestamp r"
    using sorted_newest_first [of _ i vs] by blast
  have perm: "set (sort_newest_first vs) = set vs" "length (sort_newest_first vs) = length vs"
    by (simp_all add: sort_newest_first_def)
  have old: "order_id v \<in> set (Map_keys (orders s)) \<longrightarrow>
        Map_keys (Map_set (order_id v) v (orders s)) = Map_keys (orders s)
        \<and> Map_get (Map_set (order_id v) v (orders s)) (order_id v) = Some v
        \<and> (\<forall>k. k \<noteq> order_id v \<longrightarrow>
             Map_get (Map_set (order_id v) v (orders s)) k = Map_get (orders s) k)"
    using Map_set_old [of v s] by simp
  have new: "order_id v \<notin> set (Map_keys (orders s)) \<longrightarrow>
        Map_set (order_id v) v (orders s) = orders s @ [(order_id v, v)]"
    using Map_set_new [of v s] by simp
  have room: "order_id v \<notin> set (Map_keys (orders s)) \<and> int (length (orders s)) < maxOrders s \<longrightarrow>
        orders (handleMessage (OrderItem v) s) = orders s @ [(order_id v, v)]"
    using ingest_created [of v s] by simp
  have place: "order_id v \<in> set (Map_keys (orders s)) \<and> int (length (orders s)) \<le> maxOrders s \<longrightarrow>
        orders (handleMessage (OrderItem v) s) = Map_set (order_id v) v (orders s)"
  proof (intro impI, elim conjE)
    assume "order_id v \<in> set (Map_keys (orders s))" "int (length (orders s)) \<le> maxOrders s"
    then have "\<not> maxOrders s < int (length (Map_set (order_id v) v (orders s)))"
      by (simp add: length_Map_set_present)
    then show "orders (handleMessage (OrderItem v) s) = Map_set (order_id v) v (orders s)"
      by (rule ingest_no_eviction)
  qed
  have gone: "\<forall>k. k \<in> set (Map_keys (orders s))
          \<and> k \<notin> set (Map_keys (orders (handleMessage (OrderItem v) s))) \<longrightarrow>
        maxOrders s < int (length (Map_set (order_id v) v (orders s)))"
    using removal_is_eviction [of _ s v] by blast
  have cap: "in_sync s \<and> 0 \<le> or_500 n \<longrightarrow>
        orders (updateMaxOrdersLimit (Some n) s) =
          filter (\<lambda>(k, w). w \<in> set (take (nat (or_500 n)) (ordersArray s))) (orders s)"
    using capacity_result [of s n] by simp
  have none: "orders (updateMaxOrdersLimit None s) = orders s"
    by (simp add: updateMaxOrdersLimit_def)
  have quiet: "\<not> changes_cache a \<longrightarrow> orders (perform a s) = orders s"
    using other_actions_keep_orders [of a s] by simp
  note ingest_same [of v s] ingest_result [OF assms, of v] stored_after_ingest [OF assms, of v]
    new old room place gone cap none quiet newest perm
  then show ?thesis by (intro conjI)
qed

theorem record_lifecycle_witness:
  "keyed (orders (updateMaxOrdersLimit (Some (Num 1))
        (handleMessage (OrderItem (mk_order ''A'' ''Pending'' 1)) constructed)))
   \<and> 0 \<le> maxOrders (updateMaxOrdersLimit (Some (Num 1))
        (handleMessage (OrderItem (mk_order ''A'' ''Pending'' 1)) constructed))
   \<and> int (length (orders (updateMaxOrdersLimit (Some (Num 1))
        (handleMessage (OrderItem (mk_order ''A'' ''Pending'' 1)) constructed))))
      = maxOrders (updateMaxOrdersLimit (Some (Num 1))
        (handleMessage (OrderItem (mk_order ''A'' ''Pending'' 1)) constructed))
   \<and> order_id (mk_order ''B'' ''Pending'' 2) \<notin> set (Map_keys (orders (updateMaxOrdersLimit
        (Some (Num 1)) (handleMessage (OrderItem (mk_order ''A'' ''Pending'' 1)) constructed))))
   \<and> orders (handleMessage (OrderItem (mk_order ''B'' ''Pending'' 2)) (updateMaxOrdersLimit
        (Some (Num 1)) (handleMessage (OrderItem (mk_order ''A'' ''Pending'' 1)) constructed)))
      = [(''B'', mk_order ''B'' ''Pending'' 2)]
   \<and> Map_get (orders (handleMessage (OrderUpdated (mk_order ''Z'' ''Pending'' 0))
        (updateMaxOrdersLimit (Some (Num 1))
          (handleMessage (OrderItem (mk_order ''A'' ''Pending'' 1)) constructed)))) ''Z'' = None
   \<and> order_id (mk_order ''A'' ''Processing'' 1) \<in> set (Map_keys (orders (updateMaxOrdersLimit
        (Some (Num 1)) (handleMessage (OrderItem (mk_order ''A'' ''Pending'' 1)) constructed))))
   \<and> orders (handleMessage (OrderUpdated (mk_order ''A'' ''Processing'' 1)) (updateMaxOrdersLimit
        (Some (Num 1)) (handleMessage (OrderItem (mk_order ''A'' ''Pending'' 1)) constructed)))
      = [(''A'', mk_order ''A'' ''Processing'' 1)]
   \<and> in_sync (fold handleMessage [OrderItem (mk_order ''A'' ''Pending'' 1),
        OrderItem (mk_order ''B'' ''Pending'' 2)] constructed)
   \<and> 0 \<le> or_500 (Num 1)
   \<and> orders (updateMaxOrdersLimit (Some (Num 1)) (fold handleMessage
        [OrderItem (mk_order ''A'' ''Pending'' 1), OrderItem (mk_order ''B'' ''Pending'' 2)]
        constructed)) = [(''B'', mk_order ''B'' ''Pending'' 2)]
   \<and> \<not> changes_cache (Toggle ''A'')
   \<and> orders (perform (Toggle ''A'') (updateMaxOrdersLimit (Some (Num 1))
        (handleMessage (OrderItem (mk_order ''A'' ''Pending'' 1)) constructed)))
      = orders (updateMaxOrdersLimit (Some (Num 1))
        (handleMessage (OrderItem (mk_order ''A'' ''Pending'' 1)) constructed))
   \<and> mk_order ''B'' ''Pending'' 2 \<in> set (take 1 (sort_newest_first
        [mk_order ''A'' ''Pending'' 1, mk_order ''B'' ''Pending'' 2]))
   \<and> mk_order ''A'' ''Pending'' 1 \<in> set (drop 1 (sort_newest_first
        [mk_order ''A'' ''Pending'' 1, mk_order ''B'' ''Pending'' 2]))
   \<and> timestamp (mk_order ''A'' ''Pending'' 1) \<le> timestamp (mk_order ''B'' ''Pending'' 2)"
proof -
  define s1 where "s1 = updateMaxOrdersLimit (Some (Num 1))
        (handleMessage (OrderItem (mk_order ''A'' ''Pending'' 1)) constructed)"
  define s2 where "s2 = fold handleMessage [OrderItem (mk_order ''A'' ''Pending'' 1),
        OrderItem (mk_order ''B'' ''Pending'' 2)] constructed"
  have s1: "s1 = constructed\<lparr>orders := [(''A'', mk_order ''A'' ''Pending'' 1)],
      ordersArray := [mk_order ''A'' ''Pending'' 1], maxOrders := 1\<rparr>"
    by (simp add: s1_def handleMessage_def addOrderToTable_def enforceMaxOrdersLimit_def
        constructed_def Map_set_def Map_values_def sort_newest_first_def mk_order_def Let_def
        updateMaxOrdersLimit_def or_500_def)
  have s2: "s2 = constructed\<lparr>orders := [(''A'', mk_order ''A'' ''Pending'' 1),
        (''B'', mk_order ''B'' ''Pending'' 2)],
      ordersArray := [mk_order ''B'' ''Pending'' 2, mk_order ''A'' ''Pending'' 1]\<rparr>"
    by (simp add: s2_def handleMessage_def addOrderToTable_def enforceMaxOrdersLimit_def
        constructed_def Map_set_def Map_values_def sort_newest_first_def mk_order_def Let_def)
  have k: "keyed (orders s1)" by (simp add: s1 keyed_def constructed_def mk_order_def)
  have c: "0 \<le> maxOrders s1" by (simp add: s1 constructed_def)
  have full: "int (length (orders s1)) = maxOrders s1" by (simp add: s1 constructed_def)
  have nb: "order_id (mk_order ''B'' ''Pending'' 2) \<notin> set (Map_keys (orders s1))"
    by (simp add: s1 Map_keys_def constructed_def mk_order_def)
  have ia: "order_id (mk_order ''A'' ''Processing'' 1) \<in> set (Map_keys (orders s1))"
    by (simp add: s1 Map_keys_def constructed_def mk_order_def)
  have sync: "in_sync s2"
    by (simp add: s2 in_sync_def keyed_def sort_newest_first_def Map_values_def constructed_def
        mk_order_def)
  have o: "0 \<le> or_500 (Num 1)" by (simp add: or_500_def)
  have t: "\<not> changes_cache (Toggle ''A'')" by (simp add: changes_cache_def)
  note B = record_lifecycle [OF k c, of "mk_order ''B'' ''Pending'' 2" "Num 1" "Toggle ''A''"]
  note Z = record_lifecycle [OF k c, of "mk_order ''Z'' ''Pending'' 0" "Num 1" "Toggle ''A''"]
  note A = record_lifecycle [OF k c, of "mk_order ''A'' ''Processing'' 1" "Num 1" "Toggle ''A''"]
  have k2: "keyed (orders s2)" using sync by (simp add: in_sync_def)
  have c2: "0 \<le> maxOrders s2" by (simp add: s2 constructed_def)
  note C = record_lifecycle [OF k2 c2, of "mk_order ''A'' ''Pending'' 1" "Num 1" "Toggle ''A''"]
  from B have "orders (handleMessage (OrderItem (mk_order ''B'' ''Pending'' 2)) s1) =
        filter (\<lambda>(k, w). w \<in> set (take (nat (maxOrders s1))
                  (sort_newest_first (Map_values (Map_set (order_id (mk_order ''B'' ''Pending'' 2))
                     (mk_order ''B'' ''Pending'' 2) (orders s1))))))
          (Map_set (order_id (mk_order ''B'' ''Pending'' 2)) (mk_order ''B'' ''Pending'' 2) (orders s1))"
    by blast
  then have 1: "orders (handleMessage (OrderItem (mk_order ''B'' ''Pending'' 2)) s1)
      = [(''B'', mk_order ''B'' ''Pending'' 2)]"
    by (simp add: s1 constructed_def Map_set_def Map_values_def sort_newest_first_def mk_order_def)
  from Z have "Map_get (orders (handleMessage (OrderItem (mk_order ''Z'' ''Pending'' 0)) s1))
        (order_id (mk_order ''Z'' ''Pending'' 0)) =
        (if mk_order ''Z'' ''Pending'' 0 \<in> set (take (nat (maxOrders s1))
                (sort_newest_first (Map_values (Map_set (order_id (mk_order ''Z'' ''Pending'' 0))
                   (mk_order ''Z'' ''Pending'' 0) (orders s1)))))
         then Some (mk_order ''Z'' ''Pending'' 0) else None)"
    by blast
  then have "Map_get (orders (handleMessage (OrderItem (mk_order ''Z'' ''Pending'' 0)) s1)) ''Z'' = None"
    by (simp add: s1 constructed_def Map_set_def Map_values_def sort_newest_first_def mk_order_def)
  moreover from Z have "handleMessage (OrderUpdated (mk_order ''Z'' ''Pending'' 0)) s1
      = handleMessage (OrderItem (mk_order ''Z'' ''Pending'' 0)) s1" by blast
  ultimately have 2: "Map_get (orders (handleMessage (OrderUpdated (mk_order ''Z'' ''Pending'' 0)) s1)) ''Z'' = None"
    by simp
  have le: "int (length (orders s1)) \<le> maxOrders s1" using full by simp
  from A ia le have "orders (handleMessage (OrderItem (mk_order ''A'' ''Processing'' 1)) s1)
      = Map_set (order_id (mk_order ''A'' ''Processing'' 1)) (mk_order ''A'' ''Processing'' 1) (orders s1)"
    by blast
  moreover from A have "handleMessage (OrderUpdated (mk_order ''A'' ''Processing'' 1)) s1
      = handleMessage (OrderItem (mk_order ''A'' ''Processing'' 1)) s1" by blast
  ultimately have 3: "orders (handleMessage (OrderUpdated (mk_order ''A'' ''Processing'' 1)) s1)
      = [(''A'', mk_order ''A'' ''Processing'' 1)]"
    by (simp add: s1 constructed_def Map_set_def mk_order_def)
  from C sync o have "orders (updateMaxOrdersLimit (Some (Num 1)) s2) =
          filter (\<lambda>(k, w). w \<in> set (take (nat (or_500 (Num 1))) (ordersArray s2))) (orders s2)"
    by blast
  then have 4: "orders (updateMaxOrdersLimit (Some (Num 1)) s2) = [(''B'', mk_order ''B'' ''Pending'' 2)]"
    by (simp add: s2 constructed_def or_500_def mk_order_def)
  from B t have 5: "orders (perform (Toggle ''A'') s1) = orders s1" by blast
  have r: "mk_order ''B'' ''Pending'' 2 \<in> set (take 1 (sort_newest_first
        [mk_order ''A'' ''Pending'' 1, mk_order ''B'' ''Pending'' 2]))"
    and e: "mk_order ''A'' ''Pending'' 1 \<in> set (drop 1 (sort_newest_first
        [mk_order ''A'' ''Pending'' 1, mk_order ''B'' ''Pending'' 2]))"
    by (simp_all add: sort_newest_first_def mk_order_def)
  note S = record_lifecycle [OF k c, of "mk_order ''B'' ''Pending'' 2" "Num 1" "Toggle ''A''" 1
      "[mk_order ''A'' ''Pending'' 1, mk_order ''B'' ''Pending'' 2]"]
  from S r e have 6: "timestamp (mk_order ''A'' ''Pending'' 1) \<le> timestamp (mk_order ''B'' ''Pending'' 2)"
    by blast
  show ?thesis
    using k c full nb 1 2 ia 3 sync o 4 t 5 r e 6 unfolding s1_def s2_def by blast
qed

text \<open>
  The claim as worded fails for creation: an \<open>order_updated\<close> frame whose identifier the
  cache does not hold creates the record, with no \<open>order_item\<close> frame before it.
\<close>

theorem update_creates_counterexample:
  "orders constructed = []
   \<and> Map_keys (orders (handleMessage (OrderUpdated (mk_order ''A'' ''Processing'' 1)) constructed)) = [''A'']"
  by (simp add: handleMessage_def updateOrderInTable_def enforceMaxOrdersLimit_def constructed_def
      Map_keys_def Map_set_def Map_values_def sort_newest_first_def mk_order_def Let_def)

subsection \<open>The selection on every run of the page\<close>

lemma enforce_in_sync_any: "in_sync s \<Longrightarrow> in_sync (enforceMaxOrdersLimit s)"
proof (cases "int (length (ordersArray s)) > maxOrders s")
  case True
  assume "in_sync s"
  then have "keyed (orders (enforceMaxOrdersLimit s))"
    by (simp add: enforce_orders_any keyed_filter in_sync_def)
  moreover have "ordersArray (enforceMaxOrdersLimit s) =
      sort_newest_first (Map_values (orders (enforceMaxOrdersLimit s)))"
    using True by (simp add: enforceMaxOrdersLimit_def Let_def)
  ultimately show ?thesis by (simp add: in_sync_def)
next
  case False
  then show "in_sync s \<Longrightarrow> ?thesis" by (simp add: enforceMaxOrdersLimit_def)
qed

lemma addOrderToTable_in_sync_any: "in_sync s \<Longrightarrow> in_sync (addOrderToTable v s)"
proof -
  assume "in_sync s"
  then have "keyed (orders s)" by (simp add: in_sync_def)
  from enforce_in_sync_any [OF stored_in_sync [OF this, of v]]
  show ?thesis by (simp only: ingest_eq(1))
qed

lemma handleMessage_in_sync: "in_sync s \<Longrightarrow> in_sync (handleMessage m s)"
  by (cases m) (simp_all add: handleMessage_def ingest_eq(2) addOrderToTable_in_sync_any,
      simp_all add: in_sync_def showStatus_def)

lemma updateMaxOrdersLimit_in_sync: "in_sync s \<Longrightarrow> in_sync (updateMaxOrdersLimit inp s)"
proof (cases inp)
  case None
  then show "in_sync s \<Longrightarrow> ?thesis" by (simp add: updateMaxOrdersLimit_def)
next
  case (Some n)
  assume "in_sync s"
  then have "in_sync (s\<lparr>maxOrders := or_500 n\<rparr>)" by (simp add: in_sync_def)
  then show ?thesis by (simp add: Some updateMaxOrdersLimit_def enforce_in_sync_any)
qed

lemma same_cache_in_sync:
  "orders t = orders s \<Longrightarrow> ordersArray t = ordersArray s \<Longrightarrow> in_sync t = in_sync s"
  by (simp add: in_sync_def)

lemma fold_processOrder_array: "ordersArray (fold processOrder ids s) = ordersArray s"
  by (induction ids arbitrary: s) (simp_all add: processOrder_def showStatus_def ws_send_def)

lemma fold_performCloseOrder_array: "ordersArray (fold performCloseOrder ids s) = ordersArray s"
  by (induction ids arbitrary: s) (simp_all add: performCloseOrder_def showStatus_def ws_send_def)

lemma quiet_actions_array:
  "\<not> changes_cache a \<Longrightarrow> ordersArray (perform a s) = ordersArray s"
proof (cases a)
  case (Frame m)
  assume "\<not> changes_cache a"
  with Frame show ?thesis
    by (cases m) (simp_all add: changes_cache_def is_ingest_def onmessage_def handleMessage_def showStatus_def)
next
  case (MaxOrders inp)
  assume "\<not> changes_cache a"
  with MaxOrders show ?thesis by (simp add: changes_cache_def)
next
  case Confirm
  then show ?thesis
    by (simp add: modalConfirm_def run_on_confirm_def hideConfirmationModal_def
        performCloseOrder_def performCloseSelectedOrders_def showStatus_def ws_send_def Let_def
        fold_performCloseOrder_array split: option.splits on_confirm.splits)
next
  case TimerDue
  then show ?thesis
    by (cases "timers s") (simp_all add: run_timer_def reconnect_timeout_def connectWebSocket_def)
qed (simp_all add: onopen_def onclose_def onerror_def elapse_def toggleOrderSelection_def
    deselectAllOrders_def processOrder_def closeOrder_def processSelectedOrders_def
    closeSelectedOrders_def modalCancel_def hideConfirmationModal_def showConfirmationModal_def
    showStatus_def ws_send_def goToPage_def pageSizeChange_def Let_def fold_processOrder_array
    split: option.splits)

lemma perform_in_sync: "in_sync s \<Longrightarrow> in_sync (perform a s)"
proof (cases "changes_cache a")
  case True
  assume s: "in_sync s"
  from True show ?thesis
  proof (cases a)
    case (Frame m)
    then show ?thesis using s by (simp add: onmessage_def handleMessage_in_sync)
  next
    case (MaxOrders inp)
    then show ?thesis using s by (simp add: updateMaxOrdersLimit_in_sync)
  qed (simp_all add: changes_cache_def)
next
  case False
  assume "in_sync s"
  then show ?thesis
    using other_actions_keep_orders [OF False, of s] quiet_actions_array [OF False, of s]
    by (simp add: in_sync_def)
qed

lemma in_sync_array_keys:
  "in_sync s \<Longrightarrow> order_id ` set (ordersArray s) = set (Map_keys (orders s))"
proof -
  assume s: "in_sync s"
  then have "keyed (orders s)" by (simp add: in_sync_def)
  then have "map fst (orders s) = map order_id (map snd (orders s))"
    by (rule keyed_keys)
  then have "set (map fst (orders s)) = order_id ` set (map snd (orders s))"
    by (simp only: set_map)
  then have "set (Map_keys (orders s)) = order_id ` set (Map_values (orders s))"
    by (simp only: Map_keys_def Map_values_def)
  then show ?thesis using in_sync_set [OF s] by simp
qed

lemma slice_subset: "set (slice xs a b) \<subseteq> set xs"
  unfolding slice_def Let_def
  by (meson set_take_subset set_drop_subset subset_trans)

lemma rendered_subset: "set (renderCurrentPage s) \<subseteq> set (ordersArray s)"
  by (simp add: renderCurrentPage_def Let_def slice_subset)

lemma renders_when_changed: "changes_cache a \<Longrightarrow> a \<noteq> MaxOrders None \<Longrightarrow> renders a s"
  by (cases a) (simp_all add: changes_cache_def renders_def)

lemma handle_inv:
  assumes "page_inv pg"
  shows "page_inv (handle a pg)"
proof (cases "clickable a pg")
  case False
  then show ?thesis using assms by (simp add: handle_def)
next
  case True
  let ?s = "app_of pg"
  have sel: "selection_in_cache ?s" and sync: "in_sync ?s"
    and rows: "set (tableBody pg) \<subseteq> set (ordersArray ?s)"
    using assms by (simp_all add: page_inv_def)
  have "\<not> toggles_unknown a ?s"
  proof (cases a)
    case (Toggle orderId)
    with True have "orderId \<in> order_id ` set (tableBody pg)" by (simp add: clickable_def)
    with rows have "orderId \<in> order_id ` set (ordersArray ?s)" by blast
    then show ?thesis using in_sync_array_keys [OF sync] Toggle by (simp add: toggles_unknown_def)
  qed (simp_all add: toggles_unknown_def)
  from selection_kept [OF sel this]
  have sel': "selection_in_cache (perform a ?s)" by blast
  have sync': "in_sync (perform a ?s)" by (rule perform_in_sync [OF sync])
  have rows': "set (if renders a ?s then renderCurrentPage (perform a ?s) else tableBody pg)
      \<subseteq> set (ordersArray (perform a ?s))"
  proof (cases "renders a ?s")
    case True
    then show ?thesis by (simp add: rendered_subset)
  next
    case False
    have "ordersArray (perform a ?s) = ordersArray ?s"
    proof (cases "changes_cache a")
      case True
      with False have "a = MaxOrders None" using renders_when_changed [of a ?s] by blast
      then show ?thesis by (simp add: updateMaxOrdersLimit_def)
    next
      case False
      then show ?thesis by (rule quiet_actions_array)
    qed
    with False rows show ?thesis by simp
  qed
  show ?thesis
    using True sel' sync' rows' by (simp add: handle_def page_inv_def Let_def)
qed

lemma loaded_inv: "page_inv loaded"
  by (simp add: page_inv_def loaded_def init_def connectWebSocket_def constructed_def
      selection_in_cache_def in_sync_def keyed_def sort_newest_first_def Map_values_def)

lemma run_inv: "page_inv pg \<Longrightarrow> page_inv (fold handle as pg)"
  by (induction as arbitrary: pg) (simp_all add: handle_inv)

lemma evicted_leave_together:
  "order_id ` set (evicted s) \<inter> set (selectedOrders (enforceMaxOrdersLimit s)) = {}"
  "order_id ` set (evicted s) \<inter> set (Map_keys (orders (enforceMaxOrdersLimit s))) = {}"
  unfolding Map_keys_def enforce_orders_any enforce_selected_any by force+

text \<open>
  Claim C3. After every sequence of entry points of the loaded page, a toggle being a
  click on a row of the table body, every selected identifier is a key of the cache; the
  same holds from any page in the state described by \<open>page_inv\<close>. Every order an
  enforcement evicts is, after that enforcement, neither selected nor in the cache.
\<close>

theorem selection_in_cache_on_every_run:
  "selection_in_cache (app_of (fold handle as loaded))
   \<and> (page_inv pg \<longrightarrow> selection_in_cache (app_of (fold handle as pg)))
   \<and> order_id ` set (evicted s) \<inter> set (selectedOrders (enforceMaxOrdersLimit s)) = {}
   \<and> order_id ` set (evicted s) \<inter> set (Map_keys (orders (enforceMaxOrdersLimit s))) = {}"
proof -
  have "page_inv (fold handle as loaded)" by (rule run_inv [OF loaded_inv])
  then have "selection_in_cache (app_of (fold handle as loaded))" by (simp add: page_inv_def)
  moreover have "page_inv pg \<longrightarrow> selection_in_cache (app_of (fold handle as pg))"
    using run_inv [of pg as] by (simp add: page_inv_def)
  ultimately show ?thesis using evicted_leave_together [of s] by blast
qed

theorem selection_in_cache_on_every_run_witness:
  "page_inv loaded
   \<and> selectedOrders (app_of (fold handle [Open, Frame (OrderItem (mk_order ''A'' ''Pending'' 1)),
        Frame (OrderItem (mk_order ''B'' ''Pending'' 2)), Toggle ''A''] loaded)) = [''A'']
   \<and> selection_in_cache (app_of (fold handle [Open, Frame (OrderItem (mk_order ''A'' ''Pending'' 1)),
        Frame (OrderItem (mk_order ''B'' ''Pending'' 2)), Toggle ''A''] loaded))
   \<and> selectedOrders (app_of (fold handle [Open, Frame (OrderItem (mk_order ''A'' ''Pending'' 1)),
        Frame (OrderItem (mk_order ''B'' ''Pending'' 2)), Toggle ''A'',
        MaxOrders (Some (Num 1))] loaded)) = []
   \<and> Map_keys (orders (app_of (fold handle [Open, Frame (OrderItem (mk_order ''A'' ''Pending'' 1)),
        Frame (OrderItem (mk_order ''B'' ''Pending'' 2)), Toggle ''A'',
        MaxOrders (Some (Num 1))] loaded))) = [''B'']
   \<and> selection_in_cache (app_of (fold handle [Open, Frame (OrderItem (mk_order ''A'' ''Pending'' 1)),
        Frame (OrderItem (mk_order ''B'' ''Pending'' 2)), Toggle ''A'',
        MaxOrders (Some (Num 1))] loaded))
   \<and> selectedOrders (app_of (fold handle [Open, Toggle ''X''] loaded)) = []"
proof -
  have 1: "selectedOrders (app_of (fold handle [Open, Frame (OrderItem (mk_order ''A'' ''Pending'' 1)),
        Frame (OrderItem (mk_order ''B'' ''Pending'' 2)), Toggle ''A''] loaded)) = [''A'']"
    by (simp add: handle_def clickable_def renders_def loaded_def init_def connectWebSocket_def
        onopen_def onmessage_def handleMessage_def addOrderToTable_def enforceMaxOrdersLimit_def
        constructed_def Map_set_def Map_values_def sort_newest_first_def mk_order_def Let_def
        toggleOrderSelection_def Set_has_def Set_add_def is_ingest_def renderCurrentPage_def
        slice_def slice_index_def)
  have 2: "selectedOrders (app_of (fold handle [Open, Frame (OrderItem (mk_order ''A'' ''Pending'' 1)),
        Frame (OrderItem (mk_order ''B'' ''Pending'' 2)), Toggle ''A'',
        MaxOrders (Some (Num 1))] loaded)) = []"
    "Map_keys (orders (app_of (fold handle [Open, Frame (OrderItem (mk_order ''A'' ''Pending'' 1)),
        Frame (OrderItem (mk_order ''B'' ''Pending'' 2)), Toggle ''A'',
        MaxOrders (Some (Num 1))] loaded))) = [''B'']"
    by (simp_all add: handle_def clickable_def renders_def loaded_def init_def connectWebSocket_def
        onopen_def onmessage_def handleMessage_def addOrderToTable_def enforceMaxOrdersLimit_def
        constructed_def Map_set_def Map_values_def sort_newest_first_def mk_order_def Let_def
        toggleOrderSelection_def Set_has_def Set_add_def is_ingest_def renderCurrentPage_def
        slice_def slice_index_def updateMaxOrdersLimit_def or_500_def oldestOrders_def
        slice_from_def remove_order_def Map_delete_def Set_delete_def Map_keys_def)
  have 3: "selectedOrders (app_of (fold handle [Open, Toggle ''X''] loaded)) = []"
    by (simp add: handle_def clickable_def renders_def loaded_def init_def connectWebSocket_def
        onopen_def constructed_def Let_def)
  note a = selection_in_cache_on_every_run [of "[Open, Frame (OrderItem (mk_order ''A'' ''Pending'' 1)),
        Frame (OrderItem (mk_order ''B'' ''Pending'' 2)), Toggle ''A'']" loaded]
  note b = selection_in_cache_on_every_run [of "[Open, Frame (OrderItem (mk_order ''A'' ''Pending'' 1)),
        Frame (OrderItem (mk_order ''B'' ''Pending'' 2)), Toggle ''A'',
        MaxOrders (Some (Num 1))]" loaded]
  from a b loaded_inv 1 2 3 show ?thesis by blast
qed

end
